theory Spec2Isabelle
  imports Main "HOL-Library.Word"
begin

unbundle bit_operations_syntax

section \<open>Bytes and machine words\<close>

text \<open>
  The code of \<^verbatim>\<open>src/tiff.c\<close> works on raw memory: it copies structs and arrays with
  \<^verbatim>\<open>memcpy\<close> and reads them back through casts. Memory is a list of bytes here, and a
  multi-byte integer is stored least significant byte first, as on the little-endian
  hosts the code is written for (its own comment: "native (=little-endian)").
\<close>

type_synonym u8 = "8 word"
type_synonym u16 = "16 word"
type_synonym u32 = "32 word"
type_synonym u64 = "64 word"

primrec le_bytes_nat :: "nat \<Rightarrow> nat \<Rightarrow> u8 list" where
  "le_bytes_nat 0 v = []"
| "le_bytes_nat (Suc n) v = of_nat (v mod 256) # le_bytes_nat n (v div 256)"

primrec le_nat :: "u8 list \<Rightarrow> nat" where
  "le_nat [] = 0"
| "le_nat (b # bs) = unat b + 256 * le_nat bs"

definition store_u16 :: "u16 \<Rightarrow> u8 list" where
  "store_u16 w = le_bytes_nat 2 (unat w)"

definition store_u32 :: "u32 \<Rightarrow> u8 list" where
  "store_u32 w = le_bytes_nat 4 (unat w)"

definition store_u64 :: "u64 \<Rightarrow> u8 list" where
  "store_u64 w = le_bytes_nat 8 (unat w)"

definition load_u16 :: "u8 list \<Rightarrow> u16" where
  "load_u16 bs = of_nat (le_nat (take 2 bs))"

definition load_u32 :: "u8 list \<Rightarrow> u32" where
  "load_u32 bs = of_nat (le_nat (take 4 bs))"

definition load_u64 :: "u8 list \<Rightarrow> u64" where
  "load_u64 bs = of_nat (le_nat (take 8 bs))"

text \<open>
  \<^verbatim>\<open>bswap_16\<close>, \<^verbatim>\<open>bswap_32\<close>, \<^verbatim>\<open>bswap_64\<close> reverse the bytes of a value, and
  \<^verbatim>\<open>maybe_swap_N(x, is_big_endian)\<close> does so when the flag is set (the helpers of
  \<^verbatim>\<open>common.h\<close>, used throughout \<^verbatim>\<open>tiff.c\<close>).
\<close>

definition bswap_16 :: "u16 \<Rightarrow> u16" where
  "bswap_16 w = load_u16 (rev (store_u16 w))"

definition bswap_32 :: "u32 \<Rightarrow> u32" where
  "bswap_32 w = load_u32 (rev (store_u32 w))"

definition bswap_64 :: "u64 \<Rightarrow> u64" where
  "bswap_64 w = load_u64 (rev (store_u64 w))"

definition maybe_swap_16 :: "u16 \<Rightarrow> bool \<Rightarrow> u16" where
  "maybe_swap_16 x is_big_endian = (if is_big_endian then bswap_16 x else x)"

definition maybe_swap_32 :: "u32 \<Rightarrow> bool \<Rightarrow> u32" where
  "maybe_swap_32 x is_big_endian = (if is_big_endian then bswap_32 x else x)"

definition maybe_swap_64 :: "u64 \<Rightarrow> bool \<Rightarrow> u64" where
  "maybe_swap_64 x is_big_endian = (if is_big_endian then bswap_64 x else x)"

section \<open>Files\<close>

text \<open>
  A \<^verbatim>\<open>FILE*\<close> opened for reading is the bytes of the file and the position indicator.
  \<^verbatim>\<open>fseeko64(fp, offset, SEEK_SET)\<close> takes a signed offset: a negative one is refused
  and leaves the position where it was; a position past the end is allowed.
  \<^verbatim>\<open>fread(dest, size, 1, fp)\<close> returns 1 when all \<^verbatim>\<open>size\<close> bytes were there, and 0
  otherwise (also when \<^verbatim>\<open>size\<close> is 0); on a short read it has consumed the bytes that
  were left. It yields the bytes it stored at \<^verbatim>\<open>dest\<close>.
\<close>

record FILE =
  contents :: "u8 list"
  fpos :: nat

definition fgetpos64 :: "FILE \<Rightarrow> nat" where
  "fgetpos64 fp = fpos fp"

definition fsetpos64 :: "FILE \<Rightarrow> nat \<Rightarrow> FILE" where
  "fsetpos64 fp p = fp\<lparr>fpos := p\<rparr>"

definition fseeko64 :: "FILE \<Rightarrow> u64 \<Rightarrow> bool \<times> FILE" where
  "fseeko64 fp offset =
     (if sint offset < 0 then (False, fp) else (True, fp\<lparr>fpos := unat offset\<rparr>))"

definition fread :: "FILE \<Rightarrow> u64 \<Rightarrow> u64 \<times> u8 list \<times> FILE" where
  "fread fp nbytes =
     (let got = take (unat nbytes) (drop (fpos fp) (contents fp));
          fp' = fp\<lparr>fpos := fpos fp + length got\<rparr>
      in if nbytes = 0 then (0, [], fp)
         else if length got = unat nbytes then (1, got, fp')
         else (0, got, fp'))"

text \<open>
  \<^verbatim>\<open>file_read_at_offset\<close>: remember the position, seek (the result of the seek is not
  looked at), read one item of \<^verbatim>\<open>num_bytes\<close> bytes, put the position back. The two
  \<^verbatim>\<open>ASSERT(ret == 0)\<close> hold here, since getting and setting the position of a file
  that is open cannot fail in this model.
\<close>

definition file_read_at_offset :: "FILE \<Rightarrow> u64 \<Rightarrow> u64 \<Rightarrow> u64 \<times> u8 list \<times> FILE" where
  "file_read_at_offset fp offset num_bytes =
     (let prev_read_pos = fgetpos64 fp;
          (_, fp1) = fseeko64 fp offset;
          (result, dest, fp2) = fread fp1 num_bytes;
          fp3 = fsetpos64 fp2 prev_read_pos
      in (result, dest, fp3))"

section \<open>Outcomes\<close>

text \<open>
  A function that returns \<^verbatim>\<open>false\<close> or \<^verbatim>\<open>NULL\<close> returns \<open>Inl\<close> of the reason here.
  \<open>UndefinedBehaviour\<close> stands for a step of the C code that reads or writes memory
  outside the object it was given (the code has no check there); what the program does
  from there on is not modelled. \<open>BufferOverflow\<close> is the \<^verbatim>\<open>exit(1)\<close> of
  \<^verbatim>\<open>push_size\<close>. Allocation is assumed to succeed, and \<^verbatim>\<open>ASSERT\<close> (a macro of
  \<^verbatim>\<open>common.h\<close>) is taken as in a release build, where it expands to nothing.
\<close>

datatype error =
    CannotOpen
  | FileTooSmall
  | ReadFailed
  | BadHeader
  | FieldReadFailed
  | TileCountMismatch
  | UndefinedBehaviour
  | BufferOverflow
  | BufferEmpty
  | UnexpectedBlock
  | NonExistentIFD
  | DuplicateBlock

section \<open>TIFF tags\<close>

text \<open>
  The constants of \<^verbatim>\<open>tiff.h\<close> that \<^verbatim>\<open>tiff.c\<close> uses, with the values the TIFF 6.0 and
  BigTIFF formats give them (the tag codes are those of the table in section 4.4 of the
  specification).
\<close>

abbreviation TIFF_UINT8 :: u16 where "TIFF_UINT8 \<equiv> 1"
abbreviation TIFF_ASCII :: u16 where "TIFF_ASCII \<equiv> 2"
abbreviation TIFF_UINT16 :: u16 where "TIFF_UINT16 \<equiv> 3"
abbreviation TIFF_UINT32 :: u16 where "TIFF_UINT32 \<equiv> 4"
abbreviation TIFF_RATIONAL :: u16 where "TIFF_RATIONAL \<equiv> 5"
abbreviation TIFF_INT8 :: u16 where "TIFF_INT8 \<equiv> 6"
abbreviation TIFF_UNDEFINED :: u16 where "TIFF_UNDEFINED \<equiv> 7"
abbreviation TIFF_INT16 :: u16 where "TIFF_INT16 \<equiv> 8"
abbreviation TIFF_INT32 :: u16 where "TIFF_INT32 \<equiv> 9"
abbreviation TIFF_SRATIONAL :: u16 where "TIFF_SRATIONAL \<equiv> 10"
abbreviation TIFF_FLOAT :: u16 where "TIFF_FLOAT \<equiv> 11"
abbreviation TIFF_DOUBLE :: u16 where "TIFF_DOUBLE \<equiv> 12"
abbreviation TIFF_IFD :: u16 where "TIFF_IFD \<equiv> 13"
abbreviation TIFF_UINT64 :: u16 where "TIFF_UINT64 \<equiv> 16"
abbreviation TIFF_INT64 :: u16 where "TIFF_INT64 \<equiv> 17"
abbreviation TIFF_IFD8 :: u16 where "TIFF_IFD8 \<equiv> 18"

abbreviation TIFF_TAG_NEW_SUBFILE_TYPE :: u16 where "TIFF_TAG_NEW_SUBFILE_TYPE \<equiv> 254"
abbreviation TIFF_TAG_IMAGE_WIDTH :: u16 where "TIFF_TAG_IMAGE_WIDTH \<equiv> 256"
abbreviation TIFF_TAG_IMAGE_LENGTH :: u16 where "TIFF_TAG_IMAGE_LENGTH \<equiv> 257"
abbreviation TIFF_TAG_BITS_PER_SAMPLE :: u16 where "TIFF_TAG_BITS_PER_SAMPLE \<equiv> 258"
abbreviation TIFF_TAG_COMPRESSION :: u16 where "TIFF_TAG_COMPRESSION \<equiv> 259"
abbreviation TIFF_TAG_PHOTOMETRIC_INTERPRETATION :: u16
  where "TIFF_TAG_PHOTOMETRIC_INTERPRETATION \<equiv> 262"
abbreviation TIFF_TAG_IMAGE_DESCRIPTION :: u16 where "TIFF_TAG_IMAGE_DESCRIPTION \<equiv> 270"
abbreviation TIFF_TAG_TILE_WIDTH :: u16 where "TIFF_TAG_TILE_WIDTH \<equiv> 322"
abbreviation TIFF_TAG_TILE_LENGTH :: u16 where "TIFF_TAG_TILE_LENGTH \<equiv> 323"
abbreviation TIFF_TAG_TILE_OFFSETS :: u16 where "TIFF_TAG_TILE_OFFSETS \<equiv> 324"
abbreviation TIFF_TAG_TILE_BYTE_COUNTS :: u16 where "TIFF_TAG_TILE_BYTE_COUNTS \<equiv> 325"
abbreviation TIFF_TAG_JPEG_TABLES :: u16 where "TIFF_TAG_JPEG_TABLES \<equiv> 347"
abbreviation TIFF_TAG_YCBCRSUBSAMPLING :: u16 where "TIFF_TAG_YCBCRSUBSAMPLING \<equiv> 530"
abbreviation TIFF_TAG_REFERENCEBLACKWHITE :: u16 where "TIFF_TAG_REFERENCEBLACKWHITE \<equiv> 532"

abbreviation TIFF_BIG_ENDIAN :: u16 where "TIFF_BIG_ENDIAN \<equiv> 0x4D4D"
abbreviation TIFF_LITTLE_ENDIAN :: u16 where "TIFF_LITTLE_ENDIAN \<equiv> 0x4949"
abbreviation TIFF_PHOTOMETRIC_RGB :: u16 where "TIFF_PHOTOMETRIC_RGB \<equiv> 2"
abbreviation TIFF_FILETYPE_REDUCEDIMAGE :: u32 where "TIFF_FILETYPE_REDUCEDIMAGE \<equiv> 1"

definition get_tiff_field_size :: "u16 \<Rightarrow> u32" where
  "get_tiff_field_size data_type =
     (if data_type = TIFF_UINT8 \<or> data_type = TIFF_INT8 \<or> data_type = TIFF_ASCII
         \<or> data_type = TIFF_UNDEFINED then 1
      else if data_type = TIFF_UINT16 \<or> data_type = TIFF_INT16 then 2
      else if data_type = TIFF_UINT32 \<or> data_type = TIFF_INT32 \<or> data_type = TIFF_IFD
         \<or> data_type = TIFF_FLOAT then 4
      else if data_type = TIFF_RATIONAL \<or> data_type = TIFF_SRATIONAL then 8
      else if data_type = TIFF_DOUBLE \<or> data_type = TIFF_UINT64 \<or> data_type = TIFF_INT64
         \<or> data_type = TIFF_IFD8 then 8
      else 0)"

text \<open>
  \<^verbatim>\<open>memcpy(mem + pos, bs, length bs)\<close> into an object of \<open>length mem\<close> bytes.
\<close>

definition poke :: "u8 list \<Rightarrow> nat \<Rightarrow> u8 list \<Rightarrow> error + u8 list" where
  "poke mem pos bs =
     (if pos + length bs \<le> length mem
      then Inr (take pos mem @ bs @ drop (pos + length bs) mem)
      else Inl UndefinedBehaviour)"

text \<open>
  One round of the loop of \<^verbatim>\<open>maybe_swap_tiff_field\<close>: the \<^verbatim>\<open>switch\<close> on the field
  size, at \<^verbatim>\<open>pos\<close>.
\<close>

definition swap_at :: "u8 list \<Rightarrow> nat \<Rightarrow> u32 \<Rightarrow> error + u8 list" where
  "swap_at mem pos field_size =
     (if field_size = 2 then poke mem pos (store_u16 (bswap_16 (load_u16 (drop pos mem))))
      else if field_size = 4 then poke mem pos (store_u32 (bswap_32 (load_u32 (drop pos mem))))
      else if field_size = 8 then poke mem pos (store_u64 (bswap_64 (load_u64 (drop pos mem))))
      else Inr mem)"

text \<open>
  The loop \<^verbatim>\<open>for (i = 0; i < sub_count; ++i, pos += field_size)\<close>, as recursion on the
  rounds that are left.
\<close>

primrec swap_sub_fields :: "u8 list \<Rightarrow> nat \<Rightarrow> u32 \<Rightarrow> nat \<Rightarrow> error + u8 list" where
  "swap_sub_fields mem pos field_size 0 = Inr mem"
| "swap_sub_fields mem pos field_size (Suc k) =
     (case swap_at mem pos field_size of
        Inl e \<Rightarrow> Inl e
      | Inr mem' \<Rightarrow> swap_sub_fields mem' (pos + unat field_size) field_size k)"

text \<open>
  \<^verbatim>\<open>maybe_swap_tiff_field(field, data_type, is_big_endian)\<close>; \<open>field\<close> is the object the
  pointer refers to (the 8 bytes of \<^verbatim>\<open>tag->data\<close> at both call sites). The function is
  not told how many elements the field holds.
\<close>

definition maybe_swap_tiff_field :: "u8 list \<Rightarrow> u16 \<Rightarrow> bool \<Rightarrow> error + u8 list" where
  "maybe_swap_tiff_field field data_type is_big_endian =
     (if is_big_endian then
        (let field_size = get_tiff_field_size data_type in
         if field_size > 1 then
           (let sub_count = (if data_type = TIFF_RATIONAL \<or> data_type = TIFF_SRATIONAL
                             then 2 else 1 :: nat)
            in swap_sub_fields field 0 field_size sub_count)
         else Inr field)
      else Inr field)"

text \<open>
  \<^verbatim>\<open>tiff_tag_t\<close>: \<open>data\<close> is the union of \<^verbatim>\<open>data[8]\<close>, \<^verbatim>\<open>data_u16\<close>, \<^verbatim>\<open>data_u32\<close>,
  \<^verbatim>\<open>data_u64\<close> and \<^verbatim>\<open>offset\<close>, as its 8 bytes.
\<close>

record tiff_tag_t =
  code :: u16
  data_type :: u16
  data_count :: u64
  data :: "u8 list"
  data_is_offset :: bool

definition data_u16 :: "tiff_tag_t \<Rightarrow> u16" where
  "data_u16 tag = load_u16 (data tag)"

definition data_u32 :: "tiff_tag_t \<Rightarrow> u32" where
  "data_u32 tag = load_u32 (data tag)"

definition data_u64 :: "tiff_tag_t \<Rightarrow> u64" where
  "data_u64 tag = load_u64 (data tag)"

definition tag_offset :: "tiff_tag_t \<Rightarrow> u64" where
  "tag_offset tag = load_u64 (data tag)"

text \<open>
  The body of the first loop of \<^verbatim>\<open>tiff_read_ifd\<close> for one raw entry: 20 bytes
  (code, type, 64-bit count, 8 bytes of data or offset) in BigTIFF, 12 bytes (code,
  type, 32-bit count, 4 bytes of data or offset) in classic TIFF. The tags are
  allocated with \<^verbatim>\<open>calloc\<close>, so the bytes of \<open>data\<close> that are not written are 0.
\<close>

definition decode_tag :: "bool \<Rightarrow> bool \<Rightarrow> u8 list \<Rightarrow> error + tiff_tag_t" where
  "decode_tag is_bigtiff is_big_endian raw =
     (let code' = maybe_swap_16 (load_u16 raw) is_big_endian;
          data_type' = maybe_swap_16 (load_u16 (drop 2 raw)) is_big_endian
      in if is_bigtiff then
           (let data_count' = maybe_swap_64 (load_u64 (drop 4 raw)) is_big_endian;
                field_size = get_tiff_field_size data_type';
                data_size = (ucast field_size :: u64) * data_count'
            in if data_size \<le> 8 then
                 (case maybe_swap_tiff_field (take 8 (drop 12 raw)) data_type' is_big_endian of
                    Inl e \<Rightarrow> Inl e
                  | Inr d \<Rightarrow> Inr \<lparr>code = code', data_type = data_type',
                      data_count = data_count', data = d, data_is_offset = False\<rparr>)
               else Inr \<lparr>code = code', data_type = data_type', data_count = data_count',
                      data = store_u64 (maybe_swap_64 (load_u64 (drop 12 raw)) is_big_endian),
                      data_is_offset = True\<rparr>)
         else
           (let data_count' = (ucast (maybe_swap_32 (load_u32 (drop 4 raw)) is_big_endian) :: u64);
                field_size = get_tiff_field_size data_type';
                data_size = (ucast field_size :: u64) * data_count'
            in if data_size \<le> 4 then
                 (case maybe_swap_tiff_field (take 4 (drop 8 raw) @ replicate 4 0)
                         data_type' is_big_endian of
                    Inl e \<Rightarrow> Inl e
                  | Inr d \<Rightarrow> Inr \<lparr>code = code', data_type = data_type',
                      data_count = data_count', data = d, data_is_offset = False\<rparr>)
               else Inr \<lparr>code = code', data_type = data_type', data_count = data_count',
                      data = store_u64 (ucast (maybe_swap_32 (load_u32 (drop 8 raw)) is_big_endian)),
                      data_is_offset = True\<rparr>))"

text \<open>
  The first loop itself: entry \<open>i\<close> is read at \<^verbatim>\<open>raw_tags + i\<close>. \<open>raw_tags\<close> holds
  \<^verbatim>\<open>bytes_to_read\<close> bytes, a product computed in 64 bits; an entry beyond them is a
  read outside the allocation.
\<close>

primrec decode_tags :: "bool \<Rightarrow> bool \<Rightarrow> u8 list \<Rightarrow> nat \<Rightarrow> nat list \<Rightarrow> error + tiff_tag_t list" where
  "decode_tags is_bigtiff is_big_endian raw_tags tag_size [] = Inr []"
| "decode_tags is_bigtiff is_big_endian raw_tags tag_size (i # is) =
     (if (i + 1) * tag_size \<le> length raw_tags then
        (case decode_tag is_bigtiff is_big_endian (take tag_size (drop (i * tag_size) raw_tags)) of
           Inl e \<Rightarrow> Inl e
         | Inr tag \<Rightarrow>
             (case decode_tags is_bigtiff is_big_endian raw_tags tag_size is of
                Inl e \<Rightarrow> Inl e
              | Inr tags \<Rightarrow> Inr (tag # tags)))
      else Inl UndefinedBehaviour)"

section \<open>The image descriptor\<close>

text \<open>
  \<^verbatim>\<open>tiff_ifd_t\<close> and \<^verbatim>\<open>tiff_t\<close>. A pointer to an owned buffer is \<open>None\<close> when it is
  \<^verbatim>\<open>NULL\<close> and \<open>Some\<close> of the contents of the buffer otherwise. The widths of the
  integer fields are those of the values that \<^verbatim>\<open>tiff_read_ifd\<close> assigns to them. A
  \<^verbatim>\<open>float\<close> is kept as its 32 bits. The pointers \<^verbatim>\<open>main_image\<close>, \<^verbatim>\<open>macro_image\<close>,
  \<^verbatim>\<open>label_image\<close> and \<^verbatim>\<open>level_images\<close> point into \<^verbatim>\<open>ifds\<close>; the descriptor keeps the
  index fields that go with them.
\<close>

datatype subimage_type_enum =
    TIFF_UNKNOWN_SUBIMAGE
  | TIFF_LEVEL_SUBIMAGE
  | TIFF_MACRO_SUBIMAGE
  | TIFF_LABEL_SUBIMAGE

record tiff_ifd_t =
  ifd_index :: u64
  image_width :: u32
  image_height :: u32
  tile_width :: u32
  tile_height :: u32
  tile_count :: u64
  tile_offsets :: "u64 list option"
  tile_byte_counts :: "u64 list option"
  image_description :: "u8 list option"
  image_description_length :: u64
  jpeg_tables :: "u8 list option"
  jpeg_tables_length :: u64
  compression :: u16
  color_space :: u16
  subimage_type :: subimage_type_enum
  level_magnification :: u32
  width_in_tiles :: u32
  height_in_tiles :: u32
  um_per_pixel_x :: u32
  um_per_pixel_y :: u32
  x_tile_side_in_um :: u32
  y_tile_side_in_um :: u32
  chroma_subsampling_horizontal :: u16
  chroma_subsampling_vertical :: u16
  reference_black_white_rational_count :: u64
  reference_black_white :: "(u32 \<times> u32) list option"
  tiff_subfiletype :: u32

record tiff_t =
  filesize :: u64
  bytesize_of_offsets :: u32
  ifd_count :: u64
  ifds :: "tiff_ifd_t list"
  main_image_index :: u64
  macro_image_index :: u64
  label_image_index :: u64
  level_count :: u64
  level_image_index :: u64
  is_bigtiff :: bool
  is_big_endian :: bool
  mpp_x :: u32
  mpp_y :: u32

text \<open>The all-zero objects: \<^verbatim>\<open>(tiff_ifd_t) {}\<close> and \<^verbatim>\<open>(tiff_t) {}\<close>.\<close>

definition tiff_ifd_zero :: tiff_ifd_t where
  "tiff_ifd_zero =
     \<lparr>ifd_index = 0, image_width = 0, image_height = 0, tile_width = 0, tile_height = 0,
      tile_count = 0, tile_offsets = None, tile_byte_counts = None,
      image_description = None, image_description_length = 0,
      jpeg_tables = None, jpeg_tables_length = 0, compression = 0, color_space = 0,
      subimage_type = TIFF_UNKNOWN_SUBIMAGE, level_magnification = 0,
      width_in_tiles = 0, height_in_tiles = 0, um_per_pixel_x = 0, um_per_pixel_y = 0,
      x_tile_side_in_um = 0, y_tile_side_in_um = 0,
      chroma_subsampling_horizontal = 0, chroma_subsampling_vertical = 0,
      reference_black_white_rational_count = 0, reference_black_white = None,
      tiff_subfiletype = 0\<rparr>"

definition tiff_zero :: tiff_t where
  "tiff_zero =
     \<lparr>filesize = 0, bytesize_of_offsets = 0, ifd_count = 0, ifds = [],
      main_image_index = 0, macro_image_index = 0, label_image_index = 0,
      level_count = 0, level_image_index = 0, is_bigtiff = False, is_big_endian = False,
      mpp_x = 0, mpp_y = 0\<rparr>"

section \<open>Loading the payload of a tag\<close>

text \<open>The bytes of a C string literal.\<close>

definition bytes_of :: "string \<Rightarrow> u8 list" where
  "bytes_of s = map (\<lambda>c. of_nat (of_char c)) s"

text \<open>
  \<^verbatim>\<open>tiff_read_field_ascii\<close>. The buffer has \<^verbatim>\<open>ATLEAST(8, data_count + 1)\<close> bytes, all 0.
  An external payload is read at the tag's offset and the result of the read is not
  looked at; an inline one is copied from the 8 bytes of \<^verbatim>\<open>tag->data\<close>. The model
  yields the buffer and the file.
\<close>

definition tiff_read_field_ascii :: "FILE \<Rightarrow> tiff_tag_t \<Rightarrow> error + u8 list \<times> FILE" where
  "tiff_read_field_ascii fp tag =
     (let description_length = data_count tag;
          result = replicate (max 8 (unat (description_length + 1))) (0 :: u8)
      in if data_is_offset tag then
           (let (_, got, fp') = file_read_at_offset fp (tag_offset tag) (data_count tag)
            in case poke result 0 got of
                 Inl e \<Rightarrow> Inl e
               | Inr result' \<Rightarrow> Inr (result', fp'))
         else if unat description_length \<le> length (data tag) then
           (case poke result 0 (take (unat description_length) (data tag)) of
              Inl e \<Rightarrow> Inl e
            | Inr result' \<Rightarrow> Inr (result', fp))
         else Inl UndefinedBehaviour)"

definition tiff_read_field_undefined :: "FILE \<Rightarrow> tiff_tag_t \<Rightarrow> error + u8 list \<times> FILE" where
  "tiff_read_field_undefined fp tag = tiff_read_field_ascii fp tag"

text \<open>
  \<^verbatim>\<open>tiff_read_field_integers\<close>. The result is \<open>None\<close> where the C function returns
  \<^verbatim>\<open>NULL\<close>. An external array is read in one piece of \<^verbatim>\<open>data_count * bytesize\<close> bytes (a
  64-bit product) and then walked element by element up to \<^verbatim>\<open>data_count\<close>; an inline
  payload gives one element, the 64-bit view of the data, whatever the count says.
\<close>

definition widen_integer :: "nat \<Rightarrow> bool \<Rightarrow> u8 list \<Rightarrow> u64" where
  "widen_integer bytesize big_endian bs =
     (if bytesize = 8 then (if big_endian then bswap_64 (load_u64 bs) else load_u64 bs)
      else if bytesize = 4 then ucast (maybe_swap_32 (load_u32 bs) big_endian)
      else if bytesize = 2 then ucast (maybe_swap_16 (load_u16 bs) big_endian)
      else ucast (hd bs))"

definition tiff_read_field_integers ::
    "bool \<Rightarrow> FILE \<Rightarrow> tiff_tag_t \<Rightarrow> error + u64 list option \<times> FILE" where
  "tiff_read_field_integers big_endian fp tag =
     (if data_is_offset tag then
        (let bytesize = (ucast (get_tiff_field_size (data_type tag)) :: u64);
             (r, temp_integers, fp') =
                file_read_at_offset fp (tag_offset tag) (data_count tag * bytesize)
         in if r \<noteq> 1 then Inr (None, fp')
            else if bytesize = 8 \<or> bytesize = 4 \<or> bytesize = 2 \<or> bytesize = 1 then
              (if unat (data_count tag) * unat bytesize = length temp_integers then
                 Inr (Some (map (\<lambda>i. widen_integer (unat bytesize) big_endian
                                      (take (unat bytesize) (drop (i * unat bytesize) temp_integers)))
                               [0..<unat (data_count tag)]), fp')
               else Inl UndefinedBehaviour)
            else Inr (None, fp'))
      else Inr (Some [data_u64 tag], fp))"

text \<open>
  \<^verbatim>\<open>tiff_read_field_rationals\<close>. An external array is read as above (the result of the
  read is not looked at) into a zeroed buffer of \<^verbatim>\<open>ATLEAST(8, data_count * 8)\<close> bytes. For
  an inline payload the code reads through the data, taken as an address.
\<close>

definition tiff_read_field_rationals ::
    "bool \<Rightarrow> FILE \<Rightarrow> tiff_tag_t \<Rightarrow> error + (u32 \<times> u32) list option \<times> FILE" where
  "tiff_read_field_rationals big_endian fp tag =
     (if data_is_offset tag then
        (let rationals = replicate (max 8 (unat (data_count tag * 8))) (0 :: u8);
             (_, got, fp') = file_read_at_offset fp (tag_offset tag) (data_count tag * 8)
         in case poke rationals 0 got of
              Inl e \<Rightarrow> Inl e
            | Inr rationals' \<Rightarrow>
                if unat (data_count tag) * 8 \<le> length rationals' then
                  Inr (Some (map (\<lambda>i. (maybe_swap_32 (load_u32 (drop (i * 8) rationals')) big_endian,
                                        maybe_swap_32 (load_u32 (drop (i * 8 + 4) rationals')) big_endian))
                                [0..<unat (data_count tag)]), fp')
                else Inl UndefinedBehaviour)
      else Inl UndefinedBehaviour)"

section \<open>Reading an IFD\<close>

text \<open>
  The body of the \<^verbatim>\<open>switch (tag->code)\<close> of \<^verbatim>\<open>tiff_read_ifd\<close>. The file is
  \<^verbatim>\<open>tiff->fp\<close>, passed on its own.
\<close>

definition read_ifd_tag ::
    "tiff_t \<Rightarrow> FILE \<Rightarrow> tiff_ifd_t \<Rightarrow> tiff_tag_t \<Rightarrow> error + tiff_ifd_t \<times> FILE" where
  "read_ifd_tag tiff fp ifd tag =
     (if code tag = TIFF_TAG_NEW_SUBFILE_TYPE then
        Inr (ifd\<lparr>tiff_subfiletype := data_u32 tag\<rparr>, fp)
      else if code tag = TIFF_TAG_IMAGE_WIDTH then
        Inr (ifd\<lparr>image_width := data_u32 tag\<rparr>, fp)
      else if code tag = TIFF_TAG_IMAGE_LENGTH then
        Inr (ifd\<lparr>image_height := data_u32 tag\<rparr>, fp)
      else if code tag = TIFF_TAG_BITS_PER_SAMPLE then
        Inr (ifd, fp)
      else if code tag = TIFF_TAG_COMPRESSION then
        Inr (ifd\<lparr>compression := data_u16 tag\<rparr>, fp)
      else if code tag = TIFF_TAG_PHOTOMETRIC_INTERPRETATION then
        Inr (ifd\<lparr>color_space := data_u16 tag\<rparr>, fp)
      else if code tag = TIFF_TAG_IMAGE_DESCRIPTION then
        (case tiff_read_field_ascii fp tag of
           Inl e \<Rightarrow> Inl e
         | Inr (d, fp') \<Rightarrow>
             Inr (ifd\<lparr>image_description := Some d,
                      image_description_length := data_count tag\<rparr>, fp'))
      else if code tag = TIFF_TAG_TILE_WIDTH then
        Inr (ifd\<lparr>tile_width := data_u32 tag\<rparr>, fp)
      else if code tag = TIFF_TAG_TILE_LENGTH then
        Inr (ifd\<lparr>tile_height := data_u32 tag\<rparr>, fp)
      else if code tag = TIFF_TAG_TILE_OFFSETS then
        (case tiff_read_field_integers (is_big_endian tiff) fp tag of
           Inl e \<Rightarrow> Inl e
         | Inr (None, fp') \<Rightarrow> Inl FieldReadFailed
         | Inr (Some xs, fp') \<Rightarrow>
             Inr (ifd\<lparr>tile_count := data_count tag, tile_offsets := Some xs\<rparr>, fp'))
      else if code tag = TIFF_TAG_TILE_BYTE_COUNTS then
        (if data_count tag \<noteq> tile_count ifd then Inl TileCountMismatch
         else
           (case tiff_read_field_integers (is_big_endian tiff) fp tag of
              Inl e \<Rightarrow> Inl e
            | Inr (None, fp') \<Rightarrow> Inl FieldReadFailed
            | Inr (Some xs, fp') \<Rightarrow> Inr (ifd\<lparr>tile_byte_counts := Some xs\<rparr>, fp')))
      else if code tag = TIFF_TAG_JPEG_TABLES then
        (case tiff_read_field_undefined fp tag of
           Inl e \<Rightarrow> Inl e
         | Inr (d, fp') \<Rightarrow>
             Inr (ifd\<lparr>jpeg_tables := Some d, jpeg_tables_length := data_count tag\<rparr>, fp'))
      else if code tag = TIFF_TAG_YCBCRSUBSAMPLING then
        Inr (ifd\<lparr>chroma_subsampling_horizontal := load_u16 (data tag),
                 chroma_subsampling_vertical := load_u16 (drop 2 (data tag))\<rparr>, fp)
      else if code tag = TIFF_TAG_REFERENCEBLACKWHITE then
        (case tiff_read_field_rationals (is_big_endian tiff) fp tag of
           Inl e \<Rightarrow> Inl e
         | Inr (None, fp') \<Rightarrow> Inl FieldReadFailed
         | Inr (Some rs, fp') \<Rightarrow>
             Inr (ifd\<lparr>reference_black_white_rational_count := data_count tag,
                      reference_black_white := Some rs\<rparr>, fp'))
      else Inr (ifd, fp))"

text \<open>The second loop of \<^verbatim>\<open>tiff_read_ifd\<close>: the tags in file order, up to the first failure.\<close>

primrec read_ifd_tags ::
    "tiff_t \<Rightarrow> FILE \<Rightarrow> tiff_ifd_t \<Rightarrow> tiff_tag_t list \<Rightarrow> error + tiff_ifd_t \<times> FILE" where
  "read_ifd_tags tiff fp ifd [] = Inr (ifd, fp)"
| "read_ifd_tags tiff fp ifd (tag # tags) =
     (case read_ifd_tag tiff fp ifd tag of
        Inl e \<Rightarrow> Inl e
      | Inr (ifd', fp') \<Rightarrow> read_ifd_tags tiff fp' ifd' tags)"

text \<open>
  The end of \<^verbatim>\<open>tiff_read_ifd\<close>: the tile grid, then the kind of subimage.
  \<^verbatim>\<open>strncmp(s, "Macro", 5) == 0\<close> holds when the first five bytes of the buffer (of 8
  bytes at least) are those of the literal.
\<close>

definition tile_grid :: "tiff_ifd_t \<Rightarrow> tiff_ifd_t" where
  "tile_grid ifd =
     (let ifd1 = (if tile_width ifd > 0
                  then ifd\<lparr>width_in_tiles := (image_width ifd + tile_width ifd - 1) div tile_width ifd\<rparr>
                  else ifd)
      in if tile_height ifd1 > 0
         then ifd1\<lparr>height_in_tiles := (image_height ifd1 + tile_height ifd1 - 1) div tile_height ifd1\<rparr>
         else ifd1)"

definition deduce_subimage_type :: "tiff_t \<Rightarrow> tiff_ifd_t \<Rightarrow> tiff_t \<times> tiff_ifd_t" where
  "deduce_subimage_type tiff ifd =
     (let (tiff1, ifd1) =
            (case image_description ifd of
               None \<Rightarrow> (tiff, ifd)
             | Some d \<Rightarrow>
                 if take 5 d = bytes_of ''Macro'' then
                   (tiff\<lparr>macro_image_index := ifd_index ifd\<rparr>,
                    ifd\<lparr>subimage_type := TIFF_MACRO_SUBIMAGE\<rparr>)
                 else if take 5 d = bytes_of ''Label'' then
                   (tiff\<lparr>label_image_index := ifd_index ifd\<rparr>,
                    ifd\<lparr>subimage_type := TIFF_LABEL_SUBIMAGE\<rparr>)
                 else if take 5 d = bytes_of ''level'' then
                   (tiff, ifd\<lparr>subimage_type := TIFF_LEVEL_SUBIMAGE\<rparr>)
                 else (tiff, ifd))
      in if subimage_type ifd1 = TIFF_UNKNOWN_SUBIMAGE \<and> tile_width ifd1 > 0 then
           (if ifd_index ifd1 = 0 \<or> tiff_subfiletype ifd1 AND TIFF_FILETYPE_REDUCEDIMAGE \<noteq> 0
            then (tiff1, ifd1\<lparr>subimage_type := TIFF_LEVEL_SUBIMAGE\<rparr>)
            else (tiff1, ifd1))
         else (tiff1, ifd1))"

text \<open>
  The first half of \<^verbatim>\<open>tiff_read_ifd\<close>: seek to the IFD, read the number of entries
  (8 bytes in BigTIFF, 2 in classic TIFF) and the raw entries in one piece, and
  restructure them with the first loop.
\<close>

definition read_ifd_entries :: "tiff_t \<Rightarrow> FILE \<Rightarrow> u64 \<Rightarrow> error + tiff_tag_t list \<times> FILE" where
  "read_ifd_entries tiff fp next_ifd_offset =
     (let (sought, fp1) = fseeko64 fp next_ifd_offset
      in if \<not> sought then Inl ReadFailed
         else
           (let tag_count_num_bytes = (if is_bigtiff tiff then 8 else 2 :: u64);
                (r1, got1, fp2) = fread fp1 tag_count_num_bytes
            in if r1 \<noteq> 1 then Inl ReadFailed
               else
                 (let tag_count0 = load_u64 (got1 @ replicate (8 - length got1) 0);
                      tag_count =
                        (if is_big_endian tiff then
                           (if is_bigtiff tiff then bswap_64 tag_count0
                            else ucast (bswap_16 (ucast tag_count0)))
                         else tag_count0);
                      tag_size = (if is_bigtiff tiff then 20 else 12 :: u64);
                      bytes_to_read = tag_count * tag_size;
                      (r2, raw_tags, fp3) = fread fp2 bytes_to_read
                  in if r2 \<noteq> 1 then Inl ReadFailed
                     else
                       (case decode_tags (is_bigtiff tiff) (is_big_endian tiff) raw_tags
                               (unat tag_size) [0..<unat tag_count] of
                          Inl e \<Rightarrow> Inl e
                        | Inr tags \<Rightarrow> Inr (tags, fp3)))))"

text \<open>
  \<^verbatim>\<open>tiff_read_ifd(tiff, ifd, next_ifd_offset)\<close>. It yields the descriptor (whose macro and
  label indices it may set), the file, the IFD and the offset it stored through
  \<^verbatim>\<open>next_ifd_offset\<close>. That last read stores \<^verbatim>\<open>bytesize_of_offsets\<close> bytes of the file
  over the first bytes of the 64-bit variable, as they are.
\<close>

definition tiff_read_ifd ::
    "tiff_t \<Rightarrow> FILE \<Rightarrow> tiff_ifd_t \<Rightarrow> u64 \<Rightarrow> error + tiff_t \<times> FILE \<times> tiff_ifd_t \<times> u64" where
  "tiff_read_ifd tiff fp ifd next_ifd_offset =
     (let ifd0 = ifd\<lparr>color_space := TIFF_PHOTOMETRIC_RGB\<rparr>
      in case read_ifd_entries tiff fp next_ifd_offset of
           Inl e \<Rightarrow> Inl e
         | Inr (tags, fp3) \<Rightarrow>
             (case read_ifd_tags tiff fp3 ifd0 tags of
                Inl e \<Rightarrow> Inl e
              | Inr (ifd1, fp4) \<Rightarrow>
                  (let (tiff', ifd2) = deduce_subimage_type tiff (tile_grid ifd1);
                       (r3, got3, fp5) = fread fp4 (ucast (bytesize_of_offsets tiff))
                   in if r3 \<noteq> 1 then Inl ReadFailed
                      else Inr (tiff', fp5, ifd2,
                        load_u64 (got3 @ drop (length got3) (store_u64 next_ifd_offset))))))"

section \<open>Opening a file\<close>

text \<open>
  The loop \<^verbatim>\<open>while (next_ifd_offset != 0)\<close> of \<^verbatim>\<open>open_tiff_file\<close>. Nothing bounds the
  number of rounds (a chain of IFDs may come back to an earlier offset), so the loop is
  a partial function: \<open>None\<close> is a run that never leaves it.
\<close>

partial_function (option) read_ifd_chain ::
    "tiff_t \<Rightarrow> FILE \<Rightarrow> u64 \<Rightarrow> (error + tiff_t \<times> FILE) option" where
  "read_ifd_chain tiff fp next_ifd_offset =
     (if next_ifd_offset = 0 then Some (Inr (tiff, fp))
      else
        (case tiff_read_ifd tiff fp (tiff_ifd_zero\<lparr>ifd_index := ifd_count tiff\<rparr>) next_ifd_offset of
           Inl e \<Rightarrow> Some (Inl e)
         | Inr (tiff', fp', ifd, next_ifd_offset') \<Rightarrow>
             read_ifd_chain (tiff'\<lparr>ifds := ifds tiff' @ [ifd], ifd_count := ifd_count tiff' + 1\<rparr>)
               fp' next_ifd_offset'))"

declare read_ifd_chain.simps [code]

text \<open>
  The arithmetic on \<^verbatim>\<open>float\<close> values is the platform's: multiplication, and the
  conversion of a 32-bit unsigned integer.
\<close>

record fpu =
  float_mul :: "u32 \<Rightarrow> u32 \<Rightarrow> u32"
  float_of_u32 :: "u32 \<Rightarrow> u32"

abbreviation float_0_25 :: u32 where "float_0_25 \<equiv> 0x3E800000"
abbreviation float_2_0 :: u32 where "float_2_0 \<equiv> 0x40000000"

text \<open>
  The last loop of \<^verbatim>\<open>open_tiff_file\<close>, over the first \<^verbatim>\<open>level_count\<close> IFDs, as recursion
  on the rounds that are left.
\<close>

primrec set_um_per_pixel :: "fpu \<Rightarrow> tiff_ifd_t list \<Rightarrow> nat \<Rightarrow> u32 \<Rightarrow> nat \<Rightarrow> tiff_ifd_t list" where
  "set_um_per_pixel F xs i um_per_pixel 0 = xs"
| "set_um_per_pixel F xs i um_per_pixel (Suc k) =
     set_um_per_pixel F
       (xs[i := (xs ! i)\<lparr>um_per_pixel_x := um_per_pixel, um_per_pixel_y := um_per_pixel,
                  x_tile_side_in_um := float_mul F um_per_pixel (float_of_u32 F (tile_width (xs ! i))),
                  y_tile_side_in_um := float_mul F um_per_pixel (float_of_u32 F (tile_height (xs ! i)))\<rparr>])
       (i + 1) (float_mul F um_per_pixel float_2_0) k"

definition count_levels :: "tiff_t \<Rightarrow> nat" where
  "count_levels tiff =
     length (filter (\<lambda>ifd. subimage_type ifd = TIFF_LEVEL_SUBIMAGE)
               (take (unat (ifd_count tiff)) (ifds tiff)))"

definition finish_open :: "fpu \<Rightarrow> tiff_t \<Rightarrow> tiff_t" where
  "finish_open F tiff =
     (let tiff1 = tiff\<lparr>main_image_index := 0, level_image_index := 0,
                       level_count := of_nat (count_levels tiff),
                       mpp_x := float_0_25, mpp_y := float_0_25\<rparr>
      in tiff1\<lparr>ifds := set_um_per_pixel F (ifds tiff1) 0 float_0_25 (unat (level_count tiff1))\<rparr>)"

text \<open>
  The start of \<^verbatim>\<open>open_tiff_file\<close>, on a file that could be opened: the size test and
  the header. The 16 bytes of \<^verbatim>\<open>tiff_header_t\<close> are the byte order mark, the file type,
  and either a 32-bit offset of the first IFD (classic) or the offset size, a zero and
  a 64-bit offset (BigTIFF). It yields the descriptor with the format fields set, the
  file, and the offset of the first IFD.
\<close>

definition read_tiff_header :: "tiff_t \<Rightarrow> u8 list \<Rightarrow> error + tiff_t \<times> FILE \<times> u64" where
  "read_tiff_header tiff bytes =
     (let fp = \<lparr>contents = bytes, fpos = 0\<rparr> in
      if length bytes > 8 then
        (let (r, tiff_header, fp1) = fread fp 16 in
         if r \<noteq> 1 then Inl ReadFailed
         else
           (let byte_order_indication = load_u16 tiff_header in
            if byte_order_indication \<noteq> TIFF_BIG_ENDIAN
               \<and> byte_order_indication \<noteq> TIFF_LITTLE_ENDIAN then Inl BadHeader
            else
              (let big_endian = (byte_order_indication = TIFF_BIG_ENDIAN);
                   filetype = maybe_swap_16 (load_u16 (drop 2 tiff_header)) big_endian in
               if filetype \<noteq> 0x2A \<and> filetype \<noteq> 0x2B then Inl BadHeader
               else
                 (let bigtiff = (filetype = 0x2B);
                      offset_size = (ucast (maybe_swap_16 (load_u16 (drop 4 tiff_header)) big_endian) :: u32);
                      always_zero = load_u16 (drop 6 tiff_header) in
                  if bigtiff \<and> offset_size \<noteq> 8 then Inl BadHeader
                  else if bigtiff \<and> always_zero \<noteq> 0 then Inl BadHeader
                  else
                    (let next_ifd_offset =
                           (if bigtiff
                            then maybe_swap_64 (load_u64 (drop 8 tiff_header)) big_endian
                            else ucast (maybe_swap_32 (load_u32 (drop 4 tiff_header)) big_endian))
                     in Inr (tiff\<lparr>is_big_endian := big_endian, is_bigtiff := bigtiff,
                                  bytesize_of_offsets := (if bigtiff then offset_size else 4)\<rparr>,
                             fp1, next_ifd_offset))))))
      else Inl FileTooSmall)"

text \<open>
  \<^verbatim>\<open>open_tiff_file(tiff, filename)\<close>. The file is \<open>None\<close> when \<^verbatim>\<open>fopen64\<close> fails, and its
  bytes otherwise. \<open>Some (Inr tiff)\<close> is the return of \<^verbatim>\<open>true\<close>, with the descriptor as
  the function leaves it; \<open>Some (Inl e)\<close> is the return of \<^verbatim>\<open>false\<close>.
\<close>

definition open_tiff_file :: "fpu \<Rightarrow> tiff_t \<Rightarrow> u8 list option \<Rightarrow> (error + tiff_t) option" where
  "open_tiff_file F tiff file =
     (case file of
        None \<Rightarrow> Some (Inl CannotOpen)
      | Some bytes \<Rightarrow>
          (case read_tiff_header tiff bytes of
             Inl e \<Rightarrow> Some (Inl e)
           | Inr (tiff1, fp1, next_ifd_offset) \<Rightarrow>
               (case read_ifd_chain tiff1 fp1 next_ifd_offset of
                  None \<Rightarrow> None
                | Some (Inl e) \<Rightarrow> Some (Inl e)
                | Some (Inr (tiff2, fp2)) \<Rightarrow> Some (Inr (finish_open F tiff2)))))"

text \<open>
  The loop of \<^verbatim>\<open>open_tiff_file\<close> seen from outside: the state in which it starts its
  round \<open>n\<close> (counted from 0), if it gets there.
\<close>

primrec ifd_chain_state :: "nat \<Rightarrow> tiff_t \<Rightarrow> FILE \<Rightarrow> u64 \<Rightarrow> (tiff_t \<times> FILE \<times> u64) option" where
  "ifd_chain_state 0 tiff fp next_ifd_offset = Some (tiff, fp, next_ifd_offset)"
| "ifd_chain_state (Suc n) tiff fp next_ifd_offset =
     (if next_ifd_offset = 0 then None
      else
        (case tiff_read_ifd tiff fp (tiff_ifd_zero\<lparr>ifd_index := ifd_count tiff\<rparr>) next_ifd_offset of
           Inl e \<Rightarrow> None
         | Inr (tiff', fp', ifd, next_ifd_offset') \<Rightarrow>
             ifd_chain_state n (tiff'\<lparr>ifds := ifds tiff' @ [ifd], ifd_count := ifd_count tiff' + 1\<rparr>)
               fp' next_ifd_offset'))"

text \<open>
  The value of \<^verbatim>\<open>ifd->tile_count\<close> when the second loop of \<^verbatim>\<open>tiff_read_ifd\<close> has gone
  through the tags \<open>ts\<close>, starting from \<open>c\<close>: the count of the last TileOffsets tag.
\<close>

primrec established_tile_count :: "u64 \<Rightarrow> tiff_tag_t list \<Rightarrow> u64" where
  "established_tile_count c [] = c"
| "established_tile_count c (t # ts) =
     established_tile_count (if code t = TIFF_TAG_TILE_OFFSETS then data_count t else c) ts"

text \<open>
  What the end of \<^verbatim>\<open>tiff_read_ifd\<close> makes of an IFD whose kind is still unknown: the
  kind as a function of the description, the tile width, the index and the subfile type.
\<close>

definition deduced_type :: "tiff_ifd_t \<Rightarrow> subimage_type_enum" where
  "deduced_type ifd =
     (if image_description ifd \<noteq> None \<and> take 5 (the (image_description ifd)) = bytes_of ''Macro''
      then TIFF_MACRO_SUBIMAGE
      else if image_description ifd \<noteq> None \<and> take 5 (the (image_description ifd)) = bytes_of ''Label''
      then TIFF_LABEL_SUBIMAGE
      else if image_description ifd \<noteq> None \<and> take 5 (the (image_description ifd)) = bytes_of ''level''
      then TIFF_LEVEL_SUBIMAGE
      else if tile_width ifd > 0
              \<and> (ifd_index ifd = 0 \<or> tiff_subfiletype ifd AND TIFF_FILETYPE_REDUCEDIMAGE \<noteq> 0)
      then TIFF_LEVEL_SUBIMAGE
      else TIFF_UNKNOWN_SUBIMAGE)"

section \<open>The serialized form\<close>

text \<open>
  \<^verbatim>\<open>serial_block_t\<close>, the header of a block: a 32-bit type, a 32-bit index and a 64-bit
  length, 16 bytes (section 4.6 of the specification).
\<close>

record serial_block_t =
  block_type :: u32
  block_index :: u32
  block_length :: u64

definition block_bytes :: "serial_block_t \<Rightarrow> u8 list" where
  "block_bytes b = store_u32 (block_type b) @ store_u32 (block_index b) @ store_u64 (block_length b)"

definition block_of_bytes :: "u8 list \<Rightarrow> serial_block_t" where
  "block_of_bytes bs =
     \<lparr>block_type = load_u32 bs, block_index = load_u32 (drop 4 bs),
      block_length = load_u64 (drop 8 bs)\<rparr>"

text \<open>
  Modelled from the spec: the enumerators of the block types are declared in
  \<^verbatim>\<open>tiff.h\<close>, which is not among the sources. They are numbered here in the order of
  the table of block types in section 4.6, with the compressed block first; the
  properties below use only that the numbers differ.
\<close>

abbreviation SERIAL_BLOCK_LZ4_COMPRESSED_DATA :: u32
  where "SERIAL_BLOCK_LZ4_COMPRESSED_DATA \<equiv> 1"
abbreviation SERIAL_BLOCK_TIFF_HEADER_AND_META :: u32
  where "SERIAL_BLOCK_TIFF_HEADER_AND_META \<equiv> 2"
abbreviation SERIAL_BLOCK_TIFF_IFDS :: u32
  where "SERIAL_BLOCK_TIFF_IFDS \<equiv> 3"
abbreviation SERIAL_BLOCK_TIFF_IMAGE_DESCRIPTION :: u32
  where "SERIAL_BLOCK_TIFF_IMAGE_DESCRIPTION \<equiv> 4"
abbreviation SERIAL_BLOCK_TIFF_TILE_OFFSETS :: u32
  where "SERIAL_BLOCK_TIFF_TILE_OFFSETS \<equiv> 5"
abbreviation SERIAL_BLOCK_TIFF_TILE_BYTE_COUNTS :: u32
  where "SERIAL_BLOCK_TIFF_TILE_BYTE_COUNTS \<equiv> 6"
abbreviation SERIAL_BLOCK_TIFF_JPEG_TABLES :: u32
  where "SERIAL_BLOCK_TIFF_JPEG_TABLES \<equiv> 7"
abbreviation SERIAL_BLOCK_TERMINATOR :: u32
  where "SERIAL_BLOCK_TERMINATOR \<equiv> 8"

text \<open>
  \<^verbatim>\<open>tiff_serial_header_t\<close> and \<^verbatim>\<open>tiff_serial_ifd_t\<close>, with the fields that
  \<^verbatim>\<open>tiff_serialize\<close> initialises (prefixed with \<open>s_\<close> here). Their declarations are in
  \<^verbatim>\<open>tiff.h\<close>; each field is given the type of the descriptor field copied into it.
\<close>

record tiff_serial_header_t =
  s_filesize :: u64
  s_ifd_count :: u64
  s_main_image_index :: u64
  s_macro_image_index :: u64
  s_label_image_index :: u64
  s_level_count :: u64
  s_level_image_index :: u64
  s_bytesize_of_offsets :: u32
  s_is_bigtiff :: bool
  s_is_big_endian :: bool
  s_mpp_x :: u32
  s_mpp_y :: u32

record tiff_serial_ifd_t =
  s_image_width :: u32
  s_image_height :: u32
  s_tile_width :: u32
  s_tile_height :: u32
  s_tile_count :: u64
  s_image_description_length :: u64
  s_jpeg_tables_length :: u64
  s_compression :: u16
  s_color_space :: u16
  s_level_magnification :: u32
  s_width_in_tiles :: u32
  s_height_in_tiles :: u32
  s_um_per_pixel_x :: u32
  s_um_per_pixel_y :: u32
  s_x_tile_side_in_um :: u32
  s_y_tile_side_in_um :: u32
  s_chroma_subsampling_horizontal :: u16
  s_chroma_subsampling_vertical :: u16
  s_subimage_type :: subimage_type_enum

text \<open>
  How the two structs lie in memory is fixed by \<^verbatim>\<open>tiff.h\<close> and the compiler: their
  sizes, the bytes of a value, and the value that a pointer cast reads from bytes.
\<close>

record serial_layout =
  header_size :: nat
  header_bytes :: "tiff_serial_header_t \<Rightarrow> u8 list"
  header_of_bytes :: "u8 list \<Rightarrow> tiff_serial_header_t"
  ifd_size :: nat
  ifd_bytes :: "tiff_serial_ifd_t \<Rightarrow> u8 list"
  ifd_of_bytes :: "u8 list \<Rightarrow> tiff_serial_ifd_t"

text \<open>
  The two calls into the LZ4 library (\<^verbatim>\<open>lz4.h\<close>). \<open>lz4_compress_default src\<close> is
  \<^verbatim>\<open>LZ4_compress_default(src, dst, srcSize, LZ4_COMPRESSBOUND(total_size))\<close>: the bytes
  written to \<^verbatim>\<open>dst\<close>, whose number is the result, and \<open>[]\<close> when the result is 0.
  \<open>lz4_decompress_safe src compressed_size dst_capacity\<close> is \<^verbatim>\<open>LZ4_decompress_safe\<close>:
  \<open>None\<close> for a negative result, and otherwise the bytes written, whose number is
  the result.
\<close>

record lz4 =
  lz4_compress_default :: "u8 list \<Rightarrow> u8 list"
  lz4_decompress_safe :: "u8 list \<Rightarrow> int \<Rightarrow> int \<Rightarrow> u8 list option"

section \<open>Serializing\<close>

text \<open>
  \<^verbatim>\<open>push_buffer_t\<close>: \<open>http_part\<close> is the memory from \<^verbatim>\<open>raw_memory\<close> up to \<^verbatim>\<open>data\<close>, and
  \<open>used_data\<close> the bytes of \<^verbatim>\<open>data\<close> that are in use, so that \<^verbatim>\<open>used_size\<close> is its length.
\<close>

record push_buffer_t =
  http_part :: "u8 list"
  used_data :: "u8 list"
  capacity :: u64

definition used_size :: "push_buffer_t \<Rightarrow> u64" where
  "used_size buffer = of_nat (length (used_data buffer))"

text \<open>
  \<^verbatim>\<open>push_size(buffer, data, size)\<close>; \<open>bytes\<close> is the object that \<^verbatim>\<open>data\<close> points to (empty
  for \<^verbatim>\<open>NULL\<close>), from which \<^verbatim>\<open>memcpy\<close> reads \<^verbatim>\<open>size\<close> bytes.
\<close>

definition push_size :: "push_buffer_t \<Rightarrow> u8 list \<Rightarrow> u64 \<Rightarrow> error + push_buffer_t" where
  "push_size buffer bytes n =
     (if used_size buffer + n > capacity buffer then Inl BufferOverflow
      else if unat n \<le> length bytes
      then Inr (buffer\<lparr>used_data := used_data buffer @ take (unat n) bytes\<rparr>)
      else Inl UndefinedBehaviour)"

definition push_block :: "push_buffer_t \<Rightarrow> u32 \<Rightarrow> u32 \<Rightarrow> u64 \<Rightarrow> error + push_buffer_t" where
  "push_block buffer btype idx block_len =
     push_size buffer
       (block_bytes \<lparr>block_type = btype, block_index = idx, block_length = block_len\<rparr>) 16"

text \<open>A block header followed by its payload, as \<^verbatim>\<open>tiff_serialize\<close> always pushes them.\<close>

definition push_block_with ::
    "push_buffer_t \<Rightarrow> u32 \<Rightarrow> u32 \<Rightarrow> u64 \<Rightarrow> u8 list \<Rightarrow> error + push_buffer_t" where
  "push_block_with buffer btype idx n bytes =
     (case push_block buffer btype idx n of
        Inl e \<Rightarrow> Inl e
      | Inr buffer' \<Rightarrow> push_size buffer' bytes n)"

definition serial_header_of :: "tiff_t \<Rightarrow> tiff_serial_header_t" where
  "serial_header_of tiff =
     \<lparr>s_filesize = filesize tiff, s_ifd_count = ifd_count tiff,
      s_main_image_index = main_image_index tiff,
      s_macro_image_index = macro_image_index tiff,
      s_label_image_index = label_image_index tiff,
      s_level_count = level_count tiff, s_level_image_index = level_image_index tiff,
      s_bytesize_of_offsets = bytesize_of_offsets tiff,
      s_is_bigtiff = is_bigtiff tiff, s_is_big_endian = is_big_endian tiff,
      s_mpp_x = mpp_x tiff, s_mpp_y = mpp_y tiff\<rparr>"

definition serial_ifd_of :: "tiff_ifd_t \<Rightarrow> tiff_serial_ifd_t" where
  "serial_ifd_of ifd =
     \<lparr>s_image_width = image_width ifd, s_image_height = image_height ifd,
      s_tile_width = tile_width ifd, s_tile_height = tile_height ifd,
      s_tile_count = tile_count ifd,
      s_image_description_length = image_description_length ifd,
      s_jpeg_tables_length = jpeg_tables_length ifd,
      s_compression = compression ifd, s_color_space = color_space ifd,
      s_level_magnification = level_magnification ifd,
      s_width_in_tiles = width_in_tiles ifd, s_height_in_tiles = height_in_tiles ifd,
      s_um_per_pixel_x = um_per_pixel_x ifd, s_um_per_pixel_y = um_per_pixel_y ifd,
      s_x_tile_side_in_um = x_tile_side_in_um ifd, s_y_tile_side_in_um = y_tile_side_in_um ifd,
      s_chroma_subsampling_horizontal = chroma_subsampling_horizontal ifd,
      s_chroma_subsampling_vertical = chroma_subsampling_vertical ifd,
      s_subimage_type = subimage_type ifd\<rparr>"

text \<open>
  The part of \<^verbatim>\<open>total_size\<close> that the first loop of \<^verbatim>\<open>tiff_serialize\<close> adds for one
  IFD, in 64-bit arithmetic.
\<close>

definition ifd_payload_size :: "tiff_ifd_t \<Rightarrow> u64" where
  "ifd_payload_size ifd =
     image_description_length ifd + jpeg_tables_length ifd
     + tile_count ifd * 8 + tile_count ifd * 8"

text \<open>The \<^verbatim>\<open>printf\<close> conversion \<^verbatim>\<open>%-16llu\<close>: decimal digits, padded on the right to 16.\<close>

function decimal :: "nat \<Rightarrow> string" where
  "decimal n = (if n < 10 then [char_of (48 + n)] else decimal (n div 10) @ [char_of (48 + n mod 10)])"
  by pat_completeness auto
termination
  by (relation "measure id") auto

declare decimal.simps [simp del]

definition left_justified :: "nat \<Rightarrow> string \<Rightarrow> string" where
  "left_justified w str = str @ replicate (w - length str) CHR '' ''"

definition crlf :: "u8 list" where
  "crlf = [0x0D, 0x0A]"

definition http_headers :: "u64 \<Rightarrow> u8 list" where
  "http_headers total_size =
     bytes_of ''HTTP/1.1 200 OK'' @ crlf
     @ bytes_of ''Connection: close'' @ crlf
     @ bytes_of ''Content-type: application/octet-stream'' @ crlf
     @ bytes_of ''Content-length: '' @ bytes_of (left_justified 16 (decimal (unat total_size)))
     @ crlf @ crlf"

text \<open>The bytes of a \<^verbatim>\<open>u64\<close> array, and the array that a buffer of bytes is read as.\<close>

definition u64s_bytes :: "u64 list \<Rightarrow> u8 list" where
  "u64s_bytes xs = concat (map store_u64 xs)"

definition u64s_of_bytes :: "u8 list \<Rightarrow> u64 list" where
  "u64s_of_bytes bs = map (\<lambda>i. load_u64 (drop (8 * i) bs)) [0..<length bs div 8]"

definition bytes_at :: "u8 list option \<Rightarrow> u8 list" where
  "bytes_at p = (case p of None \<Rightarrow> [] | Some b \<Rightarrow> b)"

definition u64s_at :: "u64 list option \<Rightarrow> u8 list" where
  "u64s_at p = (case p of None \<Rightarrow> [] | Some xs \<Rightarrow> u64s_bytes xs)"

text \<open>
  The second loop of \<^verbatim>\<open>tiff_serialize\<close>: for IFD \<open>i\<close>, the image description, the tile
  offsets, the tile byte counts and the JPEG tables, each as a block.
\<close>

definition push_ifd_blocks :: "push_buffer_t \<Rightarrow> nat \<Rightarrow> tiff_ifd_t \<Rightarrow> error + push_buffer_t" where
  "push_ifd_blocks buffer i ifd =
     (case push_block_with buffer SERIAL_BLOCK_TIFF_IMAGE_DESCRIPTION (of_nat i)
             (image_description_length ifd) (bytes_at (image_description ifd)) of
        Inl e \<Rightarrow> Inl e
      | Inr b1 \<Rightarrow>
     (case push_block_with b1 SERIAL_BLOCK_TIFF_TILE_OFFSETS (of_nat i)
             (tile_count ifd * 8) (u64s_at (tile_offsets ifd)) of
        Inl e \<Rightarrow> Inl e
      | Inr b2 \<Rightarrow>
     (case push_block_with b2 SERIAL_BLOCK_TIFF_TILE_BYTE_COUNTS (of_nat i)
             (tile_count ifd * 8) (u64s_at (tile_byte_counts ifd)) of
        Inl e \<Rightarrow> Inl e
      | Inr b3 \<Rightarrow>
        push_block_with b3 SERIAL_BLOCK_TIFF_JPEG_TABLES (of_nat i)
          (jpeg_tables_length ifd) (bytes_at (jpeg_tables ifd)))))"

primrec push_all_ifd_blocks ::
    "push_buffer_t \<Rightarrow> nat \<Rightarrow> tiff_ifd_t list \<Rightarrow> error + push_buffer_t" where
  "push_all_ifd_blocks buffer i [] = Inr buffer"
| "push_all_ifd_blocks buffer i (ifd # rest) =
     (case push_ifd_blocks buffer i ifd of
        Inl e \<Rightarrow> Inl e
      | Inr buffer' \<Rightarrow> push_all_ifd_blocks buffer' (i + 1) rest)"

text \<open>
  \<^verbatim>\<open>total_size\<close>, as \<^verbatim>\<open>tiff_serialize\<close> adds it up in 64 bits over the IFDs \<open>xs\<close>.
\<close>

definition serial_total_size :: "serial_layout \<Rightarrow> tiff_t \<Rightarrow> tiff_ifd_t list \<Rightarrow> u64" where
  "serial_total_size L tiff xs =
     16 + of_nat (header_size L) + 16
     + foldl (\<lambda>t ifd. t + ifd_payload_size ifd) 0 xs
     + ifd_count tiff * of_nat (ifd_size L)
     + ifd_count tiff * 16 + ifd_count tiff * 16
     + ifd_count tiff * 16 + ifd_count tiff * 16
     + 16"

text \<open>
  \<^verbatim>\<open>tiff_serialize\<close> up to the terminator block: the size of the payload, the HTTP
  headers, and the blocks of the uncompressed stream. The loops read \<^verbatim>\<open>tiff->ifds[i]\<close>
  for \<^verbatim>\<open>i < ifd_count\<close>.
\<close>

definition serialize_uncompressed :: "serial_layout \<Rightarrow> tiff_t \<Rightarrow> error + push_buffer_t" where
  "serialize_uncompressed L tiff =
     (if unat (ifd_count tiff) > length (ifds tiff) then Inl UndefinedBehaviour
      else
        (let xs = take (unat (ifd_count tiff)) (ifds tiff);
             serial_header = serial_header_of tiff;
             serial_ifds_block_size = ifd_count tiff * of_nat (ifd_size L);
             serial_ifds = concat (map (\<lambda>ifd. ifd_bytes L (serial_ifd_of ifd)) xs);
             total_size = serial_total_size L tiff xs;
             buffer = \<lparr>http_part = http_headers total_size, used_data = [], capacity = total_size\<rparr>
         in case push_block buffer SERIAL_BLOCK_TIFF_HEADER_AND_META 0 16 of
              Inl e \<Rightarrow> Inl e
            | Inr b0 \<Rightarrow>
           (case push_size b0 (header_bytes L serial_header) (of_nat (header_size L)) of
              Inl e \<Rightarrow> Inl e
            | Inr b1 \<Rightarrow>
           (case push_block_with b1 SERIAL_BLOCK_TIFF_IFDS 0 serial_ifds_block_size serial_ifds of
              Inl e \<Rightarrow> Inl e
            | Inr b2 \<Rightarrow>
           (case push_all_ifd_blocks b2 0 xs of
              Inl e \<Rightarrow> Inl e
            | Inr b3 \<Rightarrow> push_block b3 SERIAL_BLOCK_TERMINATOR 0 0)))))"

text \<open>
  The additional compression step that ends \<^verbatim>\<open>tiff_serialize\<close>. \<open>total_size\<close> is the
  capacity of the buffer. When the compression succeeds the buffer is emptied, one
  block with the compressed bytes is pushed, and the HTTP headers are written again,
  from \<^verbatim>\<open>total_size\<close> as before.
\<close>

definition compress_payload :: "lz4 \<Rightarrow> push_buffer_t \<Rightarrow> error + push_buffer_t" where
  "compress_payload Z buffer =
     (let total_size = capacity buffer;
          compressed = lz4_compress_default Z (used_data buffer) in
      if compressed \<noteq> [] then
        (case push_block_with (buffer\<lparr>used_data := []\<rparr>) SERIAL_BLOCK_LZ4_COMPRESSED_DATA
                (ucast total_size) (of_nat (length compressed)) compressed of
           Inl e \<Rightarrow> Inl e
         | Inr b5 \<Rightarrow> Inr (b5\<lparr>http_part := http_headers total_size\<rparr>))
      else Inr buffer)"

text \<open>\<^verbatim>\<open>tiff_serialize(tiff, buffer)\<close>.\<close>

definition tiff_serialize :: "serial_layout \<Rightarrow> lz4 \<Rightarrow> tiff_t \<Rightarrow> error + push_buffer_t" where
  "tiff_serialize L Z tiff =
     (case serialize_uncompressed L tiff of
        Inl e \<Rightarrow> Inl e
      | Inr buffer \<Rightarrow> compress_payload Z buffer)"

text \<open>The bytes that \<^verbatim>\<open>tiff_serialize\<close> hands over: the HTTP headers and the data in use.\<close>

definition serialized_bytes :: "push_buffer_t \<Rightarrow> u8 list" where
  "serialized_bytes buffer = http_part buffer @ used_data buffer"

section \<open>Deserializing\<close>

text \<open>
  The reading position of \<^verbatim>\<open>tiff_deserialize\<close>: the buffer that \<^verbatim>\<open>pos\<close> points into, the
  offset of \<^verbatim>\<open>pos\<close> in it, and \<^verbatim>\<open>bytes_left\<close>. The two numbers are signed 64-bit values
  in the code, and integers here.
\<close>

record cursor =
  buf :: "u8 list"
  pos :: int
  bytes_left :: int

text \<open>
  \<^verbatim>\<open>pop_from_buffer(pos, size, bytes_left)\<close>: \<open>None\<close> for \<^verbatim>\<open>NULL\<close>, else the old position
  and the cursor moved by \<^verbatim>\<open>size\<close> (which the code does not require to be positive).
\<close>

definition pop_from_buffer :: "cursor \<Rightarrow> int \<Rightarrow> (int \<times> cursor) option" where
  "pop_from_buffer c n =
     (if n > bytes_left c then None
      else Some (pos c, c\<lparr>pos := pos c + n, bytes_left := bytes_left c - n\<rparr>))"

text \<open>Reading \<open>n\<close> bytes at offset \<open>p\<close> of an object; \<open>None\<close> when they are not all inside it.\<close>

definition read_bytes :: "u8 list \<Rightarrow> int \<Rightarrow> nat \<Rightarrow> u8 list option" where
  "read_bytes mem p n =
     (if 0 \<le> p \<and> nat p + n \<le> length mem then Some (take n (drop (nat p) mem)) else None)"

text \<open>\<^verbatim>\<open>POP_BLOCK()\<close>, with the read of the header that follows it everywhere.\<close>

definition pop_block_from_buffer :: "cursor \<Rightarrow> error + serial_block_t \<times> cursor" where
  "pop_block_from_buffer c =
     (case pop_from_buffer c 16 of
        None \<Rightarrow> Inl BufferEmpty
      | Some (p, c') \<Rightarrow>
          (case read_bytes (buf c) p 16 of
             None \<Rightarrow> Inl UndefinedBehaviour
           | Some bs \<Rightarrow> Inr (block_of_bytes bs, c')))"

text \<open>
  \<^verbatim>\<open>find_end_of_http_headers(str, len)\<close>: the first offset below \<^verbatim>\<open>len - 4\<close> at which the
  four bytes CR LF CR LF stand, plus 4, and 0 when there is none. The bound is
  unsigned: with fewer than 4 bytes it wraps around and the loop reads past the end.
\<close>

definition find_end_of_http_headers :: "u8 list \<Rightarrow> error + int" where
  "find_end_of_http_headers str =
     (if length str < 4 then Inl UndefinedBehaviour
      else
        (case find (\<lambda>off. take 4 (drop off str) = crlf @ crlf) [0..<length str - 4] of
           None \<Rightarrow> Inr 0
         | Some off \<Rightarrow> Inr (int off + 4)))"

definition tiff_of_serial_header :: "tiff_serial_header_t \<Rightarrow> tiff_t" where
  "tiff_of_serial_header h =
     \<lparr>filesize = s_filesize h, bytesize_of_offsets = s_bytesize_of_offsets h,
      ifd_count = s_ifd_count h, ifds = [],
      main_image_index = s_main_image_index h,
      macro_image_index = s_macro_image_index h,
      label_image_index = s_label_image_index h,
      level_count = s_level_count h, level_image_index = 0,
      is_bigtiff = s_is_bigtiff h, is_big_endian = s_is_big_endian h,
      mpp_x = s_mpp_x h, mpp_y = s_mpp_y h\<rparr>"

definition ifd_of_serial :: "nat \<Rightarrow> tiff_serial_ifd_t \<Rightarrow> tiff_ifd_t" where
  "ifd_of_serial i s =
     \<lparr>ifd_index = of_nat i,
      image_width = s_image_width s, image_height = s_image_height s,
      tile_width = s_tile_width s, tile_height = s_tile_height s,
      tile_count = s_tile_count s, tile_offsets = None, tile_byte_counts = None,
      image_description = None, image_description_length = s_image_description_length s,
      jpeg_tables = None, jpeg_tables_length = s_jpeg_tables_length s,
      compression = s_compression s, color_space = s_color_space s,
      subimage_type = s_subimage_type s, level_magnification = s_level_magnification s,
      width_in_tiles = s_width_in_tiles s, height_in_tiles = s_height_in_tiles s,
      um_per_pixel_x = s_um_per_pixel_x s, um_per_pixel_y = s_um_per_pixel_y s,
      x_tile_side_in_um = s_x_tile_side_in_um s, y_tile_side_in_um = s_y_tile_side_in_um s,
      chroma_subsampling_horizontal = s_chroma_subsampling_horizontal s,
      chroma_subsampling_vertical = s_chroma_subsampling_vertical s,
      reference_black_white_rational_count = 0, reference_black_white = None,
      tiff_subfiletype = 0\<rparr>"

text \<open>
  The payload of a block, read when the block is put to use: \<^verbatim>\<open>block->length\<close> bytes at
  \<^verbatim>\<open>block_content\<close>. Nothing is read for a length of 0.
\<close>

definition block_content :: "cursor \<Rightarrow> int \<Rightarrow> u64 \<Rightarrow> error + u8 list" where
  "block_content c p n =
     (if n = 0 then Inr []
      else (case read_bytes (buf c) p (unat n) of
              None \<Rightarrow> Inl UndefinedBehaviour
            | Some bs \<Rightarrow> Inr bs))"

text \<open>
  The \<^verbatim>\<open>switch (block->block_type)\<close> in the loop of \<^verbatim>\<open>tiff_deserialize\<close>, for a block
  whose index is below \<^verbatim>\<open>ifd_count\<close>: the descriptor after it and whether the end was
  reached. The image description case allocates \<^verbatim>\<open>block->length + 1\<close> bytes and stores
  the closing 0 in the last one. The JPEG tables case allocates \<^verbatim>\<open>block->length\<close> bytes,
  copies the block into them and then stores a 0 at index \<^verbatim>\<open>block->length\<close>, one byte
  past the end of the allocation: undefined behaviour, whatever the length is.
\<close>

definition use_block ::
    "tiff_t \<Rightarrow> serial_block_t \<Rightarrow> cursor \<Rightarrow> int \<Rightarrow> error + tiff_t \<times> bool" where
  "use_block tiff block c p =
     (let i = unat (block_index block);
          referenced_ifd = ifds tiff ! i
      in if block_type block = SERIAL_BLOCK_TIFF_IMAGE_DESCRIPTION then
           (if image_description referenced_ifd \<noteq> None then Inl DuplicateBlock
            else (case block_content c p (block_length block) of
                    Inl e \<Rightarrow> Inl e
                  | Inr bs \<Rightarrow>
                      Inr (tiff\<lparr>ifds := (ifds tiff)[i := referenced_ifd
                             \<lparr>image_description := Some (bs @ [0]),
                              image_description_length := block_length block\<rparr>]\<rparr>, False)))
         else if block_type block = SERIAL_BLOCK_TIFF_TILE_OFFSETS then
           (if tile_offsets referenced_ifd \<noteq> None then Inl DuplicateBlock
            else (case block_content c p (block_length block) of
                    Inl e \<Rightarrow> Inl e
                  | Inr bs \<Rightarrow>
                      Inr (tiff\<lparr>ifds := (ifds tiff)[i := referenced_ifd
                             \<lparr>tile_offsets := Some (u64s_of_bytes bs)\<rparr>]\<rparr>, False)))
         else if block_type block = SERIAL_BLOCK_TIFF_TILE_BYTE_COUNTS then
           (if tile_byte_counts referenced_ifd \<noteq> None then Inl DuplicateBlock
            else (case block_content c p (block_length block) of
                    Inl e \<Rightarrow> Inl e
                  | Inr bs \<Rightarrow>
                      Inr (tiff\<lparr>ifds := (ifds tiff)[i := referenced_ifd
                             \<lparr>tile_byte_counts := Some (u64s_of_bytes bs)\<rparr>]\<rparr>, False)))
         else if block_type block = SERIAL_BLOCK_TIFF_JPEG_TABLES then
           (if jpeg_tables referenced_ifd \<noteq> None then Inl DuplicateBlock
            else (case block_content c p (block_length block) of
                    Inl e \<Rightarrow> Inl e
                  | Inr bs \<Rightarrow> Inl UndefinedBehaviour))
         else if block_type block = SERIAL_BLOCK_TERMINATOR then Inr (tiff, True)
         else Inr (tiff, False))"

text \<open>
  The loop \<^verbatim>\<open>while (!reached_end)\<close> of \<^verbatim>\<open>tiff_deserialize\<close>. \<open>p\<close> is \<^verbatim>\<open>data\<close>, the
  position that the last \<^verbatim>\<open>POP_DATA\<close> returned. The index of every block is tested
  against \<^verbatim>\<open>ifd_count\<close> before the block is told apart by its type. A block whose length
  is negative as a signed number moves the position backwards, so nothing bounds the
  number of rounds: \<open>None\<close> is a run that never leaves the loop.
\<close>

partial_function (option) read_blocks ::
    "tiff_t \<Rightarrow> cursor \<Rightarrow> int \<Rightarrow> (error + tiff_t) option" where
  "read_blocks tiff c p =
     (case pop_block_from_buffer c of
        Inl e \<Rightarrow> Some (Inl e)
      | Inr (block, c1) \<Rightarrow>
          (case (if block_length block > 0 then pop_from_buffer c1 (sint (block_length block))
                 else Some (p, c1)) of
             None \<Rightarrow> Some (Inl BufferEmpty)
           | Some (p', c2) \<Rightarrow>
               if ucast (block_index block) \<ge> ifd_count tiff then Some (Inl NonExistentIFD)
               else
                 (case use_block tiff block c2 p' of
                    Inl e \<Rightarrow> Some (Inl e)
                  | Inr (tiff', reached_end) \<Rightarrow>
                      if reached_end then Some (Inr tiff') else read_blocks tiff' c2 p')))"

declare read_blocks.simps [code]

text \<open>
  The start of \<^verbatim>\<open>tiff_deserialize\<close>, up to the first block that is not the wrapper of
  compressed data: it yields that block, the cursor after it, and \<^verbatim>\<open>data\<close>. When the
  decompression does not give the expected number of bytes, or fails, a message is
  printed and the block stays the compressed one.
\<close>

definition first_block ::
    "lz4 \<Rightarrow> u8 list \<Rightarrow> error + serial_block_t \<times> cursor \<times> int" where
  "first_block Z buffer =
     (case find_end_of_http_headers buffer of
        Inl e \<Rightarrow> Inl e
      | Inr content_offset \<Rightarrow>
     (case pop_from_buffer \<lparr>buf = buffer, pos = 0, bytes_left = int (length buffer)\<rparr> content_offset of
        None \<Rightarrow> Inl BufferEmpty
      | Some (p0, c0) \<Rightarrow>
     (case pop_block_from_buffer c0 of
        Inl e \<Rightarrow> Inl e
      | Inr (block, c1) \<Rightarrow>
          if block_type block = SERIAL_BLOCK_LZ4_COMPRESSED_DATA then
            (let compressed_size = sint (ucast (block_length block) :: u32);
                 decompressed_size = sint (block_index block)
             in case pop_from_buffer c1 compressed_size of
                  None \<Rightarrow> Inl BufferEmpty
                | Some (p1, c2) \<Rightarrow>
                    (case read_bytes (buf c1) p1 (nat compressed_size) of
                       None \<Rightarrow> Inl UndefinedBehaviour
                     | Some src \<Rightarrow>
                         (case lz4_decompress_safe Z src compressed_size decompressed_size of
                            None \<Rightarrow> Inr (block, c2, p1)
                          | Some decompressed_buffer \<Rightarrow>
                              if int (length decompressed_buffer) > 0 then
                                (if int (length decompressed_buffer) \<noteq> decompressed_size
                                 then Inr (block, c2, p1)
                                 else
                                   (case pop_block_from_buffer
                                           \<lparr>buf = decompressed_buffer, pos = 0,
                                            bytes_left = int (length decompressed_buffer)\<rparr> of
                                      Inl e \<Rightarrow> Inl e
                                    | Inr (block', c3) \<Rightarrow> Inr (block', c3, p1)))
                              else Inr (block, c2, p1))))
          else Inr (block, c1, p0))))"

text \<open>
  \<^verbatim>\<open>tiff_deserialize\<close> up to the header record: the first block must be of type
  HEADER_AND_META, and the record is read behind it. It yields the record and the
  cursor after it.
\<close>

definition read_serial_header ::
    "serial_layout \<Rightarrow> lz4 \<Rightarrow> u8 list \<Rightarrow> error + tiff_serial_header_t \<times> cursor" where
  "read_serial_header L Z buffer =
     (case first_block Z buffer of
        Inl e \<Rightarrow> Inl e
      | Inr (block, c1, p1) \<Rightarrow>
          if block_type block \<noteq> SERIAL_BLOCK_TIFF_HEADER_AND_META then Inl UnexpectedBlock
          else
            (case pop_from_buffer c1 (int (header_size L)) of
               None \<Rightarrow> Inl BufferEmpty
             | Some (p2, c2) \<Rightarrow>
                 (case read_bytes (buf c1) p2 (header_size L) of
                    None \<Rightarrow> Inl UndefinedBehaviour
                  | Some hbytes \<Rightarrow> Inr (header_of_bytes L hbytes, c2))))"

text \<open>
  \<^verbatim>\<open>tiff_deserialize(tiff, buffer, buffer_size)\<close>, where \<^verbatim>\<open>buffer\<close> holds \<^verbatim>\<open>buffer_size\<close>
  bytes. \<open>Some (Inr tiff)\<close> is the return of \<^verbatim>\<open>true\<close> and \<open>Some (Inl e)\<close> that of
  \<^verbatim>\<open>false\<close>.
\<close>

definition tiff_deserialize :: "serial_layout \<Rightarrow> lz4 \<Rightarrow> u8 list \<Rightarrow> (error + tiff_t) option" where
  "tiff_deserialize L Z buffer =
     (case read_serial_header L Z buffer of
        Inl e \<Rightarrow> Some (Inl e)
      | Inr (serial_header, c2) \<Rightarrow>
          (let tiff = tiff_of_serial_header serial_header in
           case pop_block_from_buffer c2 of
             Inl e \<Rightarrow> Some (Inl e)
           | Inr (block2, c3) \<Rightarrow>
               if block_type block2 \<noteq> SERIAL_BLOCK_TIFF_IFDS then Some (Inl UnexpectedBlock)
               else
                 (let serial_ifds_block_size = ifd_count tiff * of_nat (ifd_size L) in
                  if block_length block2 \<noteq> serial_ifds_block_size
                  then Some (Inl UnexpectedBlock)
                  else
                    (case pop_from_buffer c3 (sint serial_ifds_block_size) of
                       None \<Rightarrow> Some (Inl BufferEmpty)
                     | Some (p3, c4) \<Rightarrow>
                         (case read_bytes (buf c3) p3 (unat (ifd_count tiff) * ifd_size L) of
                            None \<Rightarrow> Some (Inl UndefinedBehaviour)
                          | Some sbytes \<Rightarrow>
                              read_blocks
                                (tiff\<lparr>ifds :=
                                   map (\<lambda>i. ifd_of_serial i
                                          (ifd_of_bytes L (take (ifd_size L) (drop (i * ifd_size L) sbytes))))
                                     [0..<unat (ifd_count tiff)]\<rparr>)
                                c4 p3)))))"

section \<open>A layout and two LZ4 stand-ins for the closed statements\<close>

text \<open>
  A layout of the two structs: the fields in the order of the initialisers of
  \<^verbatim>\<open>tiff_serialize\<close>, without padding, a \<^verbatim>\<open>bool32\<close> as 0 or 1 and the kind of subimage as
  a number from 0 (unknown) to 3. The header takes 76 bytes and an IFD 80.
\<close>

definition store_bool32 :: "bool \<Rightarrow> u8 list" where
  "store_bool32 b = store_u32 (if b then 1 else 0)"

definition load_bool32 :: "u8 list \<Rightarrow> bool" where
  "load_bool32 bs = (load_u32 bs \<noteq> 0)"

definition store_subimage_type :: "subimage_type_enum \<Rightarrow> u8 list" where
  "store_subimage_type k =
     store_u32 (case k of TIFF_UNKNOWN_SUBIMAGE \<Rightarrow> 0 | TIFF_LEVEL_SUBIMAGE \<Rightarrow> 1
                | TIFF_MACRO_SUBIMAGE \<Rightarrow> 2 | TIFF_LABEL_SUBIMAGE \<Rightarrow> 3)"

definition load_subimage_type :: "u8 list \<Rightarrow> subimage_type_enum" where
  "load_subimage_type bs =
     (if load_u32 bs = 1 then TIFF_LEVEL_SUBIMAGE
      else if load_u32 bs = 2 then TIFF_MACRO_SUBIMAGE
      else if load_u32 bs = 3 then TIFF_LABEL_SUBIMAGE
      else TIFF_UNKNOWN_SUBIMAGE)"

definition packed_header_bytes :: "tiff_serial_header_t \<Rightarrow> u8 list" where
  "packed_header_bytes h =
     store_u64 (s_filesize h) @ store_u64 (s_ifd_count h) @ store_u64 (s_main_image_index h)
     @ store_u64 (s_macro_image_index h) @ store_u64 (s_label_image_index h)
     @ store_u64 (s_level_count h) @ store_u64 (s_level_image_index h)
     @ store_u32 (s_bytesize_of_offsets h) @ store_bool32 (s_is_bigtiff h)
     @ store_bool32 (s_is_big_endian h) @ store_u32 (s_mpp_x h) @ store_u32 (s_mpp_y h)"

definition packed_header_of_bytes :: "u8 list \<Rightarrow> tiff_serial_header_t" where
  "packed_header_of_bytes bs =
     \<lparr>s_filesize = load_u64 bs, s_ifd_count = load_u64 (drop 8 bs),
      s_main_image_index = load_u64 (drop 16 bs), s_macro_image_index = load_u64 (drop 24 bs),
      s_label_image_index = load_u64 (drop 32 bs), s_level_count = load_u64 (drop 40 bs),
      s_level_image_index = load_u64 (drop 48 bs),
      s_bytesize_of_offsets = load_u32 (drop 56 bs), s_is_bigtiff = load_bool32 (drop 60 bs),
      s_is_big_endian = load_bool32 (drop 64 bs), s_mpp_x = load_u32 (drop 68 bs),
      s_mpp_y = load_u32 (drop 72 bs)\<rparr>"

definition packed_ifd_bytes :: "tiff_serial_ifd_t \<Rightarrow> u8 list" where
  "packed_ifd_bytes x =
     store_u32 (s_image_width x) @ store_u32 (s_image_height x)
     @ store_u32 (s_tile_width x) @ store_u32 (s_tile_height x)
     @ store_u64 (s_tile_count x) @ store_u64 (s_image_description_length x)
     @ store_u64 (s_jpeg_tables_length x)
     @ store_u16 (s_compression x) @ store_u16 (s_color_space x)
     @ store_u32 (s_level_magnification x)
     @ store_u32 (s_width_in_tiles x) @ store_u32 (s_height_in_tiles x)
     @ store_u32 (s_um_per_pixel_x x) @ store_u32 (s_um_per_pixel_y x)
     @ store_u32 (s_x_tile_side_in_um x) @ store_u32 (s_y_tile_side_in_um x)
     @ store_u16 (s_chroma_subsampling_horizontal x) @ store_u16 (s_chroma_subsampling_vertical x)
     @ store_subimage_type (s_subimage_type x)"

definition packed_ifd_of_bytes :: "u8 list \<Rightarrow> tiff_serial_ifd_t" where
  "packed_ifd_of_bytes bs =
     \<lparr>s_image_width = load_u32 bs, s_image_height = load_u32 (drop 4 bs),
      s_tile_width = load_u32 (drop 8 bs), s_tile_height = load_u32 (drop 12 bs),
      s_tile_count = load_u64 (drop 16 bs), s_image_description_length = load_u64 (drop 24 bs),
      s_jpeg_tables_length = load_u64 (drop 32 bs),
      s_compression = load_u16 (drop 40 bs), s_color_space = load_u16 (drop 42 bs),
      s_level_magnification = load_u32 (drop 44 bs),
      s_width_in_tiles = load_u32 (drop 48 bs), s_height_in_tiles = load_u32 (drop 52 bs),
      s_um_per_pixel_x = load_u32 (drop 56 bs), s_um_per_pixel_y = load_u32 (drop 60 bs),
      s_x_tile_side_in_um = load_u32 (drop 64 bs), s_y_tile_side_in_um = load_u32 (drop 68 bs),
      s_chroma_subsampling_horizontal = load_u16 (drop 72 bs),
      s_chroma_subsampling_vertical = load_u16 (drop 74 bs),
      s_subimage_type = load_subimage_type (drop 76 bs)\<rparr>"

definition packed_layout :: serial_layout where
  "packed_layout =
     \<lparr>header_size = 76, header_bytes = packed_header_bytes,
      header_of_bytes = packed_header_of_bytes,
      ifd_size = 80, ifd_bytes = packed_ifd_bytes, ifd_of_bytes = packed_ifd_of_bytes\<rparr>"

text \<open>
  \<^verbatim>\<open>strncmp(d, s, 5) == 0\<close> for a literal \<open>s\<close> of five characters, on a pointer that
  may be \<^verbatim>\<open>NULL\<close>: the test that \<^verbatim>\<open>tiff_read_ifd\<close> makes on the image description.
\<close>

definition begins_with :: "u8 list option \<Rightarrow> string \<Rightarrow> bool" where
  "begins_with d s = (case d of None \<Rightarrow> False | Some b \<Rightarrow> take 5 b = bytes_of s)"

text \<open>
  What holds of the descriptor at the start of every round of the loop of
  \<^verbatim>\<open>open_tiff_file\<close>: each IFD pushed so far has the kind that the end of
  \<^verbatim>\<open>tiff_read_ifd\<close> deduces, and the first one has index 0.
\<close>

definition chain_inv :: "tiff_t \<Rightarrow> bool" where
  "chain_inv tiff =
     (list_all (\<lambda>ifd. subimage_type ifd = deduced_type ifd) (ifds tiff)
      \<and> (case ifds tiff of [] \<Rightarrow> ifd_count tiff = 0 | ifd # _ \<Rightarrow> ifd_index ifd = 0))"

section \<open>Inputs of the closed statements\<close>

text \<open>
  The integer fields of a descriptor do not depend on the float arithmetic; a closed
  statement about \<^verbatim>\<open>open_tiff_file\<close> is made with this one.
\<close>

definition some_fpu :: fpu where
  "some_fpu = \<lparr>float_mul = (\<lambda>a b. 0), float_of_u32 = (\<lambda>a. 0)\<rparr>"

text \<open>
  A raw classic IFD entry for YCbCrSubSampling (tag 530, type SHORT, count 2, values 2
  and 1), in big-endian and in little-endian byte order.
\<close>

definition ycbcr_entry_be :: "u8 list" where
  "ycbcr_entry_be =
     [0x02, 0x12, 0x00, 0x03, 0x00, 0x00, 0x00, 0x02, 0x00, 0x02, 0x00, 0x01]"

definition ycbcr_entry_le :: "u8 list" where
  "ycbcr_entry_le =
     [0x12, 0x02, 0x03, 0x00, 0x02, 0x00, 0x00, 0x00, 0x02, 0x00, 0x01, 0x00]"

text \<open>
  A classic TIFF file with one IFD of two entries, ImageWidth = 512 (LONG) and
  YCbCrSubSampling = (2, 1) (two SHORTs), written little-endian and big-endian.
\<close>

definition twin_le :: "u8 list" where
  "twin_le =
     [0x49, 0x49, 0x2A, 0x00, 0x08, 0x00, 0x00, 0x00, 0x02, 0x00, 0x00, 0x01, 0x04, 0x00,
      0x01, 0x00, 0x00, 0x00, 0x00, 0x02, 0x00, 0x00, 0x12, 0x02, 0x03, 0x00, 0x02, 0x00,
      0x00, 0x00, 0x02, 0x00, 0x01, 0x00, 0x00, 0x00, 0x00, 0x00]"

definition twin_be :: "u8 list" where
  "twin_be =
     [0x4D, 0x4D, 0x00, 0x2A, 0x00, 0x00, 0x00, 0x08, 0x00, 0x02, 0x01, 0x00, 0x00, 0x04,
      0x00, 0x00, 0x00, 0x01, 0x00, 0x00, 0x02, 0x00, 0x02, 0x12, 0x00, 0x03, 0x00, 0x00,
      0x00, 0x02, 0x00, 0x02, 0x00, 0x01, 0x00, 0x00, 0x00, 0x00]"

text \<open>
  Little-endian classic TIFF files with one IFD: with ImageWidth = 512 only; with
  ImageWidth = 512 and TileWidth = 512; a file of 14 bytes whose IFD has no entries;
  and a file whose IFD has TileOffsets with count 2 (the two offsets are the last 8
  bytes) followed by TileByteCounts with count 1.
\<close>

definition untiled_tiff :: "u8 list" where
  "untiled_tiff =
     [0x49, 0x49, 0x2A, 0x00, 0x08, 0x00, 0x00, 0x00, 0x01, 0x00, 0x00, 0x01, 0x04, 0x00,
      0x01, 0x00, 0x00, 0x00, 0x00, 0x02, 0x00, 0x00, 0x00, 0x00, 0x00, 0x00]"

definition tiled_tiff :: "u8 list" where
  "tiled_tiff =
     [0x49, 0x49, 0x2A, 0x00, 0x08, 0x00, 0x00, 0x00, 0x02, 0x00, 0x00, 0x01, 0x04, 0x00,
      0x01, 0x00, 0x00, 0x00, 0x00, 0x02, 0x00, 0x00, 0x42, 0x01, 0x04, 0x00, 0x01, 0x00,
      0x00, 0x00, 0x00, 0x02, 0x00, 0x00, 0x00, 0x00, 0x00, 0x00]"

definition short_tiff :: "u8 list" where
  "short_tiff =
     [0x49, 0x49, 0x2A, 0x00, 0x08, 0x00, 0x00, 0x00, 0x00, 0x00, 0x00, 0x00, 0x00, 0x00]"

definition mismatch_tiff :: "u8 list" where
  "mismatch_tiff =
     [0x49, 0x49, 0x2A, 0x00, 0x08, 0x00, 0x00, 0x00, 0x02, 0x00, 0x44, 0x01, 0x04, 0x00,
      0x02, 0x00, 0x00, 0x00, 0x26, 0x00, 0x00, 0x00, 0x45, 0x01, 0x04, 0x00, 0x01, 0x00,
      0x00, 0x00, 0xD0, 0x07, 0x00, 0x00, 0x00, 0x00, 0x00, 0x00, 0xE8, 0x03, 0x00, 0x00,
      0xB8, 0x0B, 0x00, 0x00]"

text \<open>
  LZ4 itself is not among the sources. The closed statements are made with a
  run-length codec in its place (pairs of a count and a byte): like LZ4, its
  decompressor gives back what the compressor was given, and reports an error when the
  output does not fit the capacity.
\<close>

fun rle_encode :: "u8 list \<Rightarrow> u8 list" where
  "rle_encode [] = []"
| "rle_encode (x # xs) =
     (case rle_encode xs of
        c # y # rest \<Rightarrow> if y = x \<and> c < 255 then (c + 1) # y # rest else 1 # x # c # y # rest
      | _ \<Rightarrow> [1, x])"

fun rle_decode :: "u8 list \<Rightarrow> u8 list" where
  "rle_decode (c # x # rest) = replicate (unat c) x @ rle_decode rest"
| "rle_decode _ = []"

definition run_length_codec :: lz4 where
  "run_length_codec =
     \<lparr>lz4_compress_default = rle_encode,
      lz4_decompress_safe =
        (\<lambda>src compressed_size dst_capacity.
           if int (length (rle_decode src)) \<le> dst_capacity then Some (rle_decode src) else None)\<rparr>"

text \<open>
  A descriptor with one IFD (a level of 512 by 512 pixels in one tile, described as
  "level 0"), and the descriptor without IFDs that \<^verbatim>\<open>open_tiff_file\<close> yields for a file
  whose first IFD offset is 0.
\<close>

definition one_level_image :: tiff_t where
  "one_level_image =
     tiff_zero\<lparr>bytesize_of_offsets := 4, ifd_count := 1, level_count := 1,
       ifds := [tiff_ifd_zero\<lparr>image_width := 512, image_height := 512,
                  tile_width := 512, tile_height := 512, tile_count := 1,
                  tile_offsets := Some [1000], tile_byte_counts := Some [2000],
                  image_description := Some (bytes_of ''level 0'' @ [0, 0]),
                  image_description_length := 8,
                  compression := 7, color_space := 2,
                  subimage_type := TIFF_LEVEL_SUBIMAGE,
                  width_in_tiles := 1, height_in_tiles := 1\<rparr>]\<rparr>"

definition no_ifd_image :: tiff_t where
  "no_ifd_image = tiff_zero\<lparr>bytesize_of_offsets := 4\<rparr>"

text \<open>
  A stream whose only block wraps two bytes of compressed data, a run of one byte, and
  announces 100 bytes of uncompressed data.
\<close>

definition short_lz4_stream :: "u8 list" where
  "short_lz4_stream =
     http_headers 18
     @ block_bytes \<lparr>block_type = SERIAL_BLOCK_LZ4_COMPRESSED_DATA, block_index = 100,
                     block_length = 2\<rparr>
     @ [0x01, 0x2A]"

text \<open>The cursor that has read \<open>before\<close> and has \<open>rest\<close> in front of it.\<close>

definition cur :: "u8 list \<Rightarrow> u8 list \<Rightarrow> cursor" where
  "cur before rest =
     \<lparr>buf = before @ rest, pos = int (length before), bytes_left = int (length rest)\<rparr>"

text \<open>
  The payload that \<^verbatim>\<open>tiff_serialize\<close> builds for \<open>one_level_image\<close> and for
  \<open>no_ifd_image\<close> with the packed layout, before compression, and the first one after
  the run-length codec.
\<close>

definition one_level_payload :: "u8 list" where
  "one_level_payload =
     [0x02, 0x00, 0x00, 0x00, 0x00, 0x00, 0x00, 0x00, 0x10, 0x00, 0x00, 0x00, 0x00, 0x00,
      0x00, 0x00, 0x00, 0x00, 0x00, 0x00, 0x00, 0x00, 0x00, 0x00, 0x01, 0x00, 0x00, 0x00,
      0x00, 0x00, 0x00, 0x00, 0x00, 0x00, 0x00, 0x00, 0x00, 0x00, 0x00, 0x00, 0x00, 0x00,
      0x00, 0x00, 0x00, 0x00, 0x00, 0x00, 0x00, 0x00, 0x00, 0x00, 0x00, 0x00, 0x00, 0x00,
      0x01, 0x00, 0x00, 0x00, 0x00, 0x00, 0x00, 0x00, 0x00, 0x00, 0x00, 0x00, 0x00, 0x00,
      0x00, 0x00, 0x04, 0x00, 0x00, 0x00, 0x00, 0x00, 0x00, 0x00, 0x00, 0x00, 0x00, 0x00,
      0x00, 0x00, 0x00, 0x00, 0x00, 0x00, 0x00, 0x00, 0x03, 0x00, 0x00, 0x00, 0x00, 0x00,
      0x00, 0x00, 0x50, 0x00, 0x00, 0x00, 0x00, 0x00, 0x00, 0x00, 0x00, 0x02, 0x00, 0x00,
      0x00, 0x02, 0x00, 0x00, 0x00, 0x02, 0x00, 0x00, 0x00, 0x02, 0x00, 0x00, 0x01, 0x00,
      0x00, 0x00, 0x00, 0x00, 0x00, 0x00, 0x08, 0x00, 0x00, 0x00, 0x00, 0x00, 0x00, 0x00,
      0x00, 0x00, 0x00, 0x00, 0x00, 0x00, 0x00, 0x00, 0x07, 0x00, 0x02, 0x00, 0x00, 0x00,
      0x00, 0x00, 0x01, 0x00, 0x00, 0x00, 0x01, 0x00, 0x00, 0x00, 0x00, 0x00, 0x00, 0x00,
      0x00, 0x00, 0x00, 0x00, 0x00, 0x00, 0x00, 0x00, 0x00, 0x00, 0x00, 0x00, 0x00, 0x00,
      0x00, 0x00, 0x01, 0x00, 0x00, 0x00, 0x04, 0x00, 0x00, 0x00, 0x00, 0x00, 0x00, 0x00,
      0x08, 0x00, 0x00, 0x00, 0x00, 0x00, 0x00, 0x00, 0x6C, 0x65, 0x76, 0x65, 0x6C, 0x20,
      0x30, 0x00, 0x05, 0x00, 0x00, 0x00, 0x00, 0x00, 0x00, 0x00, 0x08, 0x00, 0x00, 0x00,
      0x00, 0x00, 0x00, 0x00, 0xE8, 0x03, 0x00, 0x00, 0x00, 0x00, 0x00, 0x00, 0x06, 0x00,
      0x00, 0x00, 0x00, 0x00, 0x00, 0x00, 0x08, 0x00, 0x00, 0x00, 0x00, 0x00, 0x00, 0x00,
      0xD0, 0x07, 0x00, 0x00, 0x00, 0x00, 0x00, 0x00, 0x07, 0x00, 0x00, 0x00, 0x00, 0x00,
      0x00, 0x00, 0x00, 0x00, 0x00, 0x00, 0x00, 0x00, 0x00, 0x00, 0x08, 0x00, 0x00, 0x00,
      0x00, 0x00, 0x00, 0x00, 0x00, 0x00, 0x00, 0x00, 0x00, 0x00, 0x00, 0x00]"

definition one_level_compressed :: "u8 list" where
  "one_level_compressed =
     [0x01, 0x02, 0x07, 0x00, 0x01, 0x10, 0x0F, 0x00, 0x01, 0x01, 0x1F, 0x00, 0x01, 0x01,
      0x0F, 0x00, 0x01, 0x04, 0x13, 0x00, 0x01, 0x03, 0x07, 0x00, 0x01, 0x50, 0x08, 0x00,
      0x01, 0x02, 0x03, 0x00, 0x01, 0x02, 0x03, 0x00, 0x01, 0x02, 0x03, 0x00, 0x01, 0x02,
      0x02, 0x00, 0x01, 0x01, 0x07, 0x00, 0x01, 0x08, 0x0F, 0x00, 0x01, 0x07, 0x01, 0x00,
      0x01, 0x02, 0x05, 0x00, 0x01, 0x01, 0x03, 0x00, 0x01, 0x01, 0x17, 0x00, 0x01, 0x01,
      0x03, 0x00, 0x01, 0x04, 0x07, 0x00, 0x01, 0x08, 0x07, 0x00, 0x01, 0x6C, 0x01, 0x65,
      0x01, 0x76, 0x01, 0x65, 0x01, 0x6C, 0x01, 0x20, 0x01, 0x30, 0x01, 0x00, 0x01, 0x05,
      0x07, 0x00, 0x01, 0x08, 0x07, 0x00, 0x01, 0xE8, 0x01, 0x03, 0x06, 0x00, 0x01, 0x06,
      0x07, 0x00, 0x01, 0x08, 0x07, 0x00, 0x01, 0xD0, 0x01, 0x07, 0x06, 0x00, 0x01, 0x07,
      0x0F, 0x00, 0x01, 0x08, 0x0F, 0x00]"

definition no_ifd_payload :: "u8 list" where
  "no_ifd_payload =
     [0x02, 0x00, 0x00, 0x00, 0x00, 0x00, 0x00, 0x00, 0x10, 0x00, 0x00, 0x00, 0x00, 0x00,
      0x00, 0x00, 0x00, 0x00, 0x00, 0x00, 0x00, 0x00, 0x00, 0x00, 0x00, 0x00, 0x00, 0x00,
      0x00, 0x00, 0x00, 0x00, 0x00, 0x00, 0x00, 0x00, 0x00, 0x00, 0x00, 0x00, 0x00, 0x00,
      0x00, 0x00, 0x00, 0x00, 0x00, 0x00, 0x00, 0x00, 0x00, 0x00, 0x00, 0x00, 0x00, 0x00,
      0x00, 0x00, 0x00, 0x00, 0x00, 0x00, 0x00, 0x00, 0x00, 0x00, 0x00, 0x00, 0x00, 0x00,
      0x00, 0x00, 0x04, 0x00, 0x00, 0x00, 0x00, 0x00, 0x00, 0x00, 0x00, 0x00, 0x00, 0x00,
      0x00, 0x00, 0x00, 0x00, 0x00, 0x00, 0x00, 0x00, 0x03, 0x00, 0x00, 0x00, 0x00, 0x00,
      0x00, 0x00, 0x00, 0x00, 0x00, 0x00, 0x00, 0x00, 0x00, 0x00, 0x08, 0x00, 0x00, 0x00,
      0x00, 0x00, 0x00, 0x00, 0x00, 0x00, 0x00, 0x00, 0x00, 0x00, 0x00, 0x00]"

text \<open>
  The same payload after the run-length codec, and the bytes that \<^verbatim>\<open>tiff_serialize\<close>
  hands over for \<open>no_ifd_image\<close>.
\<close>

definition no_ifd_compressed :: "u8 list" where
  "no_ifd_compressed =
     [0x01, 0x02, 0x07, 0x00, 0x01, 0x10, 0x3F, 0x00, 0x01, 0x04, 0x13, 0x00, 0x01, 0x03,
      0x0F, 0x00, 0x01, 0x08, 0x0F, 0x00]"

definition no_ifd_serialized :: "u8 list" where
  "no_ifd_serialized =
     http_headers 124
     @ block_bytes \<lparr>block_type = SERIAL_BLOCK_LZ4_COMPRESSED_DATA, block_index = 124,
                     block_length = 20\<rparr>
     @ no_ifd_compressed"

text \<open>The HTTP headers up to the number.\<close>

definition http_prefix :: "u8 list" where
  "http_prefix =
     bytes_of ''HTTP/1.1 200 OK'' @ crlf
     @ bytes_of ''Connection: close'' @ crlf
     @ bytes_of ''Content-type: application/octet-stream'' @ crlf
     @ bytes_of ''Content-length: ''"

section \<open>The stream of a descriptor\<close>

text \<open>
  The conditions on the layout that the round trip rests on: the bytes of a struct
  are as many as its size, and reading them back gives the struct.
\<close>

definition layout_ok :: "serial_layout \<Rightarrow> bool" where
  "layout_ok L =
     ((\<forall>h. length (header_bytes L h) = header_size L)
      \<and> (\<forall>h. header_of_bytes L (header_bytes L h) = h)
      \<and> (\<forall>x. length (ifd_bytes L x) = ifd_size L)
      \<and> (\<forall>x. ifd_of_bytes L (ifd_bytes L x) = x))"

text \<open>
  What an IFD holds behind its pointers, as far as its length fields say: the first
  \<^verbatim>\<open>tile_count\<close> tile offsets and tile byte counts, the first
  \<^verbatim>\<open>image_description_length\<close> bytes of the description and the first
  \<^verbatim>\<open>jpeg_tables_length\<close> bytes of the JPEG tables.
\<close>

definition u64s_at_list :: "u64 list option \<Rightarrow> u64 list" where
  "u64s_at_list p = (case p of None \<Rightarrow> [] | Some xs \<Rightarrow> xs)"

definition tile_offsets_vector :: "tiff_ifd_t \<Rightarrow> u64 list" where
  "tile_offsets_vector ifd = take (unat (tile_count ifd)) (u64s_at_list (tile_offsets ifd))"

definition tile_byte_counts_vector :: "tiff_ifd_t \<Rightarrow> u64 list" where
  "tile_byte_counts_vector ifd = take (unat (tile_count ifd)) (u64s_at_list (tile_byte_counts ifd))"

definition image_description_text :: "tiff_ifd_t \<Rightarrow> u8 list" where
  "image_description_text ifd =
     take (unat (image_description_length ifd)) (bytes_at (image_description ifd))"

definition jpeg_tables_blob :: "tiff_ifd_t \<Rightarrow> u8 list" where
  "jpeg_tables_blob ifd = take (unat (jpeg_tables_length ifd)) (bytes_at (jpeg_tables ifd))"

text \<open>
  An IFD whose buffers hold at least what its length fields say (a \<^verbatim>\<open>NULL\<close> pointer
  holds nothing).
\<close>

definition ifd_buffers_ok :: "tiff_ifd_t \<Rightarrow> bool" where
  "ifd_buffers_ok ifd =
     (unat (image_description_length ifd) \<le> length (bytes_at (image_description ifd))
      \<and> unat (jpeg_tables_length ifd) \<le> length (bytes_at (jpeg_tables ifd))
      \<and> unat (tile_count ifd) \<le> length (u64s_at_list (tile_offsets ifd))
      \<and> unat (tile_count ifd) \<le> length (u64s_at_list (tile_byte_counts ifd)))"

text \<open>The number of bytes of the four blocks of an IFD, and of the whole payload.\<close>

definition ifd_stream_size :: "tiff_ifd_t \<Rightarrow> nat" where
  "ifd_stream_size ifd =
     64 + unat (image_description_length ifd) + unat (jpeg_tables_length ifd)
     + 16 * unat (tile_count ifd)"

definition payload_size :: "serial_layout \<Rightarrow> tiff_t \<Rightarrow> nat" where
  "payload_size L tiff =
     48 + header_size L + length (ifds tiff) * ifd_size L
     + sum_list (map ifd_stream_size (ifds tiff))"

text \<open>
  The descriptors of the round trip: \<^verbatim>\<open>ifd_count\<close> is the number of IFDs, every IFD has
  its buffers, and the payload is shorter than \<open>2^31\<close> bytes, the largest size that the
  code hands to LZ4 as an \<^verbatim>\<open>int\<close>.
\<close>

definition serializable :: "serial_layout \<Rightarrow> tiff_t \<Rightarrow> bool" where
  "serializable L tiff =
     (unat (ifd_count tiff) = length (ifds tiff)
      \<and> list_all ifd_buffers_ok (ifds tiff)
      \<and> payload_size L tiff < 2 ^ 31)"

text \<open>The bytes of the four blocks of IFD \<open>i\<close>, of the IFDs from \<open>i\<close> on, and of the payload.\<close>

definition block_with :: "u32 \<Rightarrow> nat \<Rightarrow> u8 list \<Rightarrow> u8 list" where
  "block_with btype i bytes =
     block_bytes \<lparr>block_type = btype, block_index = of_nat i, block_length = of_nat (length bytes)\<rparr>
     @ bytes"

definition ifd_stream :: "nat \<Rightarrow> tiff_ifd_t \<Rightarrow> u8 list" where
  "ifd_stream i ifd =
     block_with SERIAL_BLOCK_TIFF_IMAGE_DESCRIPTION i (image_description_text ifd)
     @ block_with SERIAL_BLOCK_TIFF_TILE_OFFSETS i (u64s_bytes (tile_offsets_vector ifd))
     @ block_with SERIAL_BLOCK_TIFF_TILE_BYTE_COUNTS i (u64s_bytes (tile_byte_counts_vector ifd))
     @ block_with SERIAL_BLOCK_TIFF_JPEG_TABLES i (jpeg_tables_blob ifd)"

primrec ifds_stream :: "nat \<Rightarrow> tiff_ifd_t list \<Rightarrow> u8 list" where
  "ifds_stream i [] = []"
| "ifds_stream i (ifd # rest) = ifd_stream i ifd @ ifds_stream (i + 1) rest"

definition terminator_block :: "u8 list" where
  "terminator_block =
     block_bytes \<lparr>block_type = SERIAL_BLOCK_TERMINATOR, block_index = 0, block_length = 0\<rparr>"

definition payload_stream :: "serial_layout \<Rightarrow> tiff_t \<Rightarrow> u8 list" where
  "payload_stream L tiff =
     block_bytes \<lparr>block_type = SERIAL_BLOCK_TIFF_HEADER_AND_META, block_index = 0, block_length = 16\<rparr>
     @ header_bytes L (serial_header_of tiff)
     @ block_bytes \<lparr>block_type = SERIAL_BLOCK_TIFF_IFDS, block_index = 0,
                     block_length = of_nat (length (ifds tiff) * ifd_size L)\<rparr>
     @ concat (map (\<lambda>ifd. ifd_bytes L (serial_ifd_of ifd)) (ifds tiff))
     @ ifds_stream 0 (ifds tiff)
     @ terminator_block"

section \<open>Properties\<close>

subsection \<open>Bytes\<close>

lemma length_le_bytes_nat [simp]: "length (le_bytes_nat n v) = n"
  by (induction n arbitrary: v) simp_all

lemma le_nat_le_bytes_nat: "le_nat (le_bytes_nat n v) = v mod 256 ^ n"
proof (induction n arbitrary: v)
  case 0
  show ?case by simp
next
  case (Suc n)
  have "unat (of_nat (v mod 256) :: u8) = v mod 256"
    by (simp add: unat_of_nat)
  then show ?case
    by (simp add: Suc mod_mult2_eq)
qed

subsection \<open>The positioned read\<close>

lemma fread_contents: "contents (snd (snd (fread fp n))) = contents fp"
  by (simp add: fread_def Let_def)

lemma fseeko64_contents: "contents (snd (fseeko64 fp off)) = contents fp"
  by (simp add: fseeko64_def)

text \<open>
  C8. For every call \<^verbatim>\<open>file_read_at_offset(dest, fp, offset, num_bytes)\<close> on an open
  file, the position indicator of the file on return is the one on entry, whether the
  read got all its bytes or not. The file itself is not changed either.
\<close>

theorem file_read_at_offset_restores_position:
  "fpos (snd (snd (file_read_at_offset fp offset num_bytes))) = fpos fp
   \<and> contents (snd (snd (file_read_at_offset fp offset num_bytes))) = contents fp"
  by (simp add: file_read_at_offset_def fgetpos64_def fsetpos64_def fseeko64_def
      fread_def Let_def split: prod.splits)

subsection \<open>Evaluation\<close>

text \<open>Facts that let the simplifier run the definitions on concrete bytes.\<close>

lemma le_bytes_nat_numeral:
  "le_bytes_nat (numeral k) v = of_nat (v mod 256) # le_bytes_nat (pred_numeral k) (v div 256)"
  by (simp add: numeral_eq_Suc [of k])

lemma swap_sub_fields_numeral:
  "swap_sub_fields mem p fs (numeral k) =
     (case swap_at mem p fs of
        Inl e \<Rightarrow> Inl e
      | Inr mem' \<Rightarrow> swap_sub_fields mem' (p + unat fs) fs (pred_numeral k))"
  by (simp add: numeral_eq_Suc [of k])

lemma replicate_numeral_Cons: "replicate (numeral k) x = x # replicate (pred_numeral k) x"
  by (simp add: numeral_eq_Suc [of k])

lemma set_um_per_pixel_numeral:
  "set_um_per_pixel F xs i um (numeral k) =
     set_um_per_pixel F
       (xs[i := (xs ! i)\<lparr>um_per_pixel_x := um, um_per_pixel_y := um,
                  x_tile_side_in_um := float_mul F um (float_of_u32 F (tile_width (xs ! i))),
                  y_tile_side_in_um := float_mul F um (float_of_u32 F (tile_height (xs ! i)))\<rparr>])
       (i + 1) (float_mul F um float_2_0) (pred_numeral k)"
  by (simp add: numeral_eq_Suc [of k])

lemmas word_eval =
  le_bytes_nat_numeral replicate_numeral_Cons
  store_u16_def store_u32_def store_u64_def load_u16_def load_u32_def load_u64_def
  bswap_16_def bswap_32_def bswap_64_def maybe_swap_16_def maybe_swap_32_def maybe_swap_64_def

lemmas tag_eval =
  word_eval swap_sub_fields_numeral get_tiff_field_size_def poke_def swap_at_def
  maybe_swap_tiff_field_def decode_tag_def Let_def

lemmas tiff_eval =
  tag_eval set_um_per_pixel_numeral upt_rec
  data_u16_def data_u32_def data_u64_def tag_offset_def
  fgetpos64_def fsetpos64_def fseeko64_def fread_def file_read_at_offset_def
  bytes_of_def tiff_read_field_ascii_def tiff_read_field_undefined_def widen_integer_def
  tiff_read_field_integers_def tiff_read_field_rationals_def read_ifd_tag_def tile_grid_def
  deduce_subimage_type_def read_ifd_entries_def tiff_read_ifd_def count_levels_def
  finish_open_def read_tiff_header_def open_tiff_file_def
  tiff_zero_def tiff_ifd_zero_def read_ifd_chain.simps some_fpu_def

subsection \<open>Opening a file\<close>

lemma read_tiff_header_short:
  "length bytes < 16 \<Longrightarrow>
   read_tiff_header tiff bytes = Inl (if 8 < length bytes then ReadFailed else FileTooSmall)"
  by (simp add: read_tiff_header_def fread_def Let_def)

text \<open>
  C10. \<^verbatim>\<open>open_tiff_file\<close> returns failure for every file shorter than 16 bytes: a file of
  at most 8 bytes fails the size test, and a longer one the read of the 16-byte header.
\<close>

theorem open_tiff_file_rejects_short_file:
  "length bytes < 16 \<Longrightarrow>
   open_tiff_file F tiff (Some bytes) = Some (Inl (if 8 < length bytes then ReadFailed else FileTooSmall))"
  by (simp add: open_tiff_file_def read_tiff_header_short)

lemma read_ifd_tag_keeps:
  "read_ifd_tag tiff fp ifd t = Inr (ifd', fp') \<Longrightarrow>
   subimage_type ifd' = subimage_type ifd \<and> ifd_index ifd' = ifd_index ifd"
  unfolding read_ifd_tag_def
  by (auto split: if_splits sum.splits option.splits prod.splits)

lemma read_ifd_tag_tile_count:
  "read_ifd_tag tiff fp ifd t = Inr (ifd', fp') \<Longrightarrow>
   tile_count ifd' = (if code t = TIFF_TAG_TILE_OFFSETS then data_count t else tile_count ifd)"
  unfolding read_ifd_tag_def
  by (auto split: if_splits sum.splits option.splits prod.splits)

lemma read_ifd_tags_keeps:
  "read_ifd_tags tiff fp ifd ts = Inr (ifd', fp') \<Longrightarrow>
   subimage_type ifd' = subimage_type ifd \<and> ifd_index ifd' = ifd_index ifd"
proof (induction ts arbitrary: ifd fp)
  case Nil
  then show ?case by simp
next
  case (Cons t ts)
  then show ?case
    by (auto split: sum.splits dest!: read_ifd_tag_keeps)
qed

lemma read_ifd_tags_tile_count:
  "read_ifd_tags tiff fp ifd ts = Inr (ifd', fp') \<Longrightarrow>
   tile_count ifd' = established_tile_count (tile_count ifd) ts"
proof (induction ts arbitrary: ifd fp)
  case Nil
  then show ?case by simp
next
  case (Cons t ts)
  then show ?case
    by (auto split: sum.splits dest!: read_ifd_tag_tile_count)
qed

lemma read_ifd_tags_append:
  "read_ifd_tags tiff fp ifd (xs @ ys) =
     (case read_ifd_tags tiff fp ifd xs of
        Inl e \<Rightarrow> Inl e
      | Inr (ifd', fp') \<Rightarrow> read_ifd_tags tiff fp' ifd' ys)"
  by (induction xs arbitrary: ifd fp) (auto split: sum.splits)

lemma read_ifd_tags_mismatch_exact:
  assumes "code t = TIFF_TAG_TILE_BYTE_COUNTS"
    and "read_ifd_tags tiff fp ifd pre = Inr (ifd', fp')"
    and "data_count t \<noteq> established_tile_count (tile_count ifd) pre"
  shows "read_ifd_tags tiff fp ifd (pre @ t # post) = Inl TileCountMismatch"
proof -
  have "tile_count ifd' = established_tile_count (tile_count ifd) pre"
    using assms(2) by (rule read_ifd_tags_tile_count)
  then have "read_ifd_tag tiff fp' ifd' t = Inl TileCountMismatch"
    using assms(1,3) by (simp add: read_ifd_tag_def)
  then show ?thesis
    using assms(2) by (simp add: read_ifd_tags_append)
qed

lemma tiff_read_ifd_mismatch_exact:
  assumes "read_ifd_entries tiff fp next_ifd_offset = Inr (pre @ t # post, fp')"
    and "code t = TIFF_TAG_TILE_BYTE_COUNTS"
    and "read_ifd_tags tiff fp' (ifd\<lparr>color_space := TIFF_PHOTOMETRIC_RGB\<rparr>) pre = Inr (ifd', fp'')"
    and "data_count t \<noteq> established_tile_count (tile_count ifd) pre"
  shows "tiff_read_ifd tiff fp ifd next_ifd_offset = Inl TileCountMismatch"
proof -
  have "read_ifd_tags tiff fp' (ifd\<lparr>color_space := TIFF_PHOTOMETRIC_RGB\<rparr>) (pre @ t # post)
      = Inl TileCountMismatch"
    using assms(2,3,4) by (intro read_ifd_tags_mismatch_exact) simp_all
  then show ?thesis
    using assms(1) by (simp add: tiff_read_ifd_def)
qed

lemma read_ifd_chain_fails_at:
  assumes "ifd_chain_state n tiff fp next_ifd_offset = Some (tiff', fp', next_ifd_offset')"
    and "next_ifd_offset' \<noteq> 0"
    and "tiff_read_ifd tiff' fp' (tiff_ifd_zero\<lparr>ifd_index := ifd_count tiff'\<rparr>) next_ifd_offset' = Inl e"
  shows "read_ifd_chain tiff fp next_ifd_offset = Some (Inl e)"
  using assms
proof (induction n arbitrary: tiff fp next_ifd_offset)
  case 0
  then show ?case
    by (subst read_ifd_chain.simps) simp
next
  case (Suc n)
  then show ?case
    by (subst read_ifd_chain.simps) (auto split: if_splits sum.splits)
qed

text \<open>
  C5. Let the loop of \<^verbatim>\<open>open_tiff_file\<close> get to an IFD (in some round \<open>n\<close>) whose
  entries hold a TileByteCounts tag (code 325), let the tags before it be read
  successfully, so that the tag itself is decoded, and let its count differ from the
  tile count that the TileOffsets tags before it established (0 when there is none).
  Then \<^verbatim>\<open>tiff_read_ifd\<close> returns failure on that IFD, at the test of the two counts, and
  \<^verbatim>\<open>open_tiff_file\<close> returns failure for the file.
\<close>

theorem tile_byte_counts_mismatch_fails:
  assumes "read_tiff_header tiff bytes = Inr (tiff1, fp1, off1)"
    and "ifd_chain_state n tiff1 fp1 off1 = Some (tiff', fp', next_ifd_offset)"
    and "next_ifd_offset \<noteq> 0"
    and "read_ifd_entries tiff' fp' next_ifd_offset = Inr (pre @ t # post, fp'')"
    and "read_ifd_tags tiff' fp''
           (tiff_ifd_zero\<lparr>ifd_index := ifd_count tiff', color_space := TIFF_PHOTOMETRIC_RGB\<rparr>) pre
         = Inr (ifd_pre, fp_pre)"
    and "code t = TIFF_TAG_TILE_BYTE_COUNTS"
    and "data_count t \<noteq> established_tile_count 0 pre"
  shows "tiff_read_ifd tiff' fp' (tiff_ifd_zero\<lparr>ifd_index := ifd_count tiff'\<rparr>) next_ifd_offset
           = Inl TileCountMismatch
       \<and> open_tiff_file F tiff (Some bytes) = Some (Inl TileCountMismatch)"
proof -
  have "data_count t \<noteq>
      established_tile_count (tile_count (tiff_ifd_zero\<lparr>ifd_index := ifd_count tiff'\<rparr>)) pre"
    using assms(7) by (simp add: tiff_ifd_zero_def)
  then have e: "tiff_read_ifd tiff' fp' (tiff_ifd_zero\<lparr>ifd_index := ifd_count tiff'\<rparr>) next_ifd_offset
      = Inl TileCountMismatch"
    using assms(5) by (intro tiff_read_ifd_mismatch_exact [OF assms(4) assms(6)]) simp_all
  have "read_ifd_chain tiff1 fp1 off1 = Some (Inl TileCountMismatch)"
    using read_ifd_chain_fails_at [OF assms(2,3) e] .
  then have "open_tiff_file F tiff (Some bytes) = Some (Inl TileCountMismatch)"
    using assms(1) by (simp add: open_tiff_file_def)
  then show ?thesis using e by simp
qed


lemma tile_grid_keeps:
  "subimage_type (tile_grid ifd) = subimage_type ifd"
  "ifd_index (tile_grid ifd) = ifd_index ifd"
  by (simp_all add: tile_grid_def Let_def)

lemma deduce_subimage_type_deduced:
  assumes "deduce_subimage_type tiff ifd = (tiff', ifd')"
    and "subimage_type ifd = TIFF_UNKNOWN_SUBIMAGE"
  shows "subimage_type ifd' = deduced_type ifd'" and "ifd_index ifd' = ifd_index ifd"
    and "ifds tiff' = ifds tiff" and "ifd_count tiff' = ifd_count tiff"
  using assms
  by (auto simp: deduce_subimage_type_def deduced_type_def bytes_of_def Let_def
      split: option.splits if_splits)

lemma tiff_read_ifd_deduced:
  assumes "tiff_read_ifd tiff fp ifd next_ifd_offset = Inr (tiff', fp', ifd', next_ifd_offset')"
    and "subimage_type ifd = TIFF_UNKNOWN_SUBIMAGE"
  shows "subimage_type ifd' = deduced_type ifd'" and "ifd_index ifd' = ifd_index ifd"
    and "ifds tiff' = ifds tiff" and "ifd_count tiff' = ifd_count tiff"
proof -
  from assms(1) obtain tags fp3 ifd1 fp4 where
    tags: "read_ifd_tags tiff fp3 (ifd\<lparr>color_space := TIFF_PHOTOMETRIC_RGB\<rparr>) tags = Inr (ifd1, fp4)"
    and ded: "deduce_subimage_type tiff (tile_grid ifd1) = (tiff', ifd')"
    by (auto simp: tiff_read_ifd_def Let_def split: sum.splits prod.splits if_splits)
  have k: "subimage_type ifd1 = TIFF_UNKNOWN_SUBIMAGE" "ifd_index ifd1 = ifd_index ifd"
    using read_ifd_tags_keeps [OF tags] assms(2) by simp_all
  show "subimage_type ifd' = deduced_type ifd'" and "ifd_index ifd' = ifd_index ifd"
    and "ifds tiff' = ifds tiff" and "ifd_count tiff' = ifd_count tiff"
    using deduce_subimage_type_deduced [OF ded] k by (simp_all add: tile_grid_keeps)
qed

lemma chain_inv_step:
  assumes "chain_inv tiff"
    and "tiff_read_ifd tiff fp (tiff_ifd_zero\<lparr>ifd_index := ifd_count tiff\<rparr>) off = Inr (tiff', fp', ifd, off')"
  shows "chain_inv (tiff'\<lparr>ifds := ifds tiff' @ [ifd], ifd_count := ifd_count tiff' + 1\<rparr>)"
proof -
  have u: "subimage_type (tiff_ifd_zero\<lparr>ifd_index := ifd_count tiff\<rparr>) = TIFF_UNKNOWN_SUBIMAGE"
    by (simp add: tiff_ifd_zero_def)
  note d = tiff_read_ifd_deduced [OF assms(2) u]
  show ?thesis
    using assms(1) d by (auto simp: chain_inv_def split: list.splits)
qed


lemma read_ifd_chain_inv_aux:
  assumes "read_ifd_chain tiff fp off = Some r"
  shows "\<forall>t fp'. r = Inr (t, fp') \<longrightarrow> chain_inv tiff \<longrightarrow> chain_inv t"
  apply (rule read_ifd_chain.raw_induct
      [where P = "\<lambda>tiff fp off r. \<forall>t fp'. r = Inr (t, fp') \<longrightarrow> chain_inv tiff \<longrightarrow> chain_inv t",
        OF _ assms])
  apply (auto split: if_splits sum.splits prod.splits dest: chain_inv_step)
  done

lemma read_ifd_chain_inv:
  "read_ifd_chain tiff fp off = Some (Inr (t, fp')) \<Longrightarrow> chain_inv tiff \<Longrightarrow> chain_inv t"
  using read_ifd_chain_inv_aux by blast


lemma map_update_same: "(map g xs)[i := g (xs ! i)] = map g xs"
  by (metis list_update_id map_update)

lemma set_um_per_pixel_map:
  assumes "\<And>x a b c d. g (x\<lparr>um_per_pixel_x := a, um_per_pixel_y := b,
              x_tile_side_in_um := c, y_tile_side_in_um := d\<rparr>) = g x"
  shows "map g (set_um_per_pixel F xs i um k) = map g xs"
  by (induction k arbitrary: xs i um) (simp_all add: map_update assms map_update_same)

lemma finish_open_keeps:
  "map subimage_type (ifds (finish_open F tiff)) = map subimage_type (ifds tiff)"
  "map deduced_type (ifds (finish_open F tiff)) = map deduced_type (ifds tiff)"
  "map ifd_index (ifds (finish_open F tiff)) = map ifd_index (ifds tiff)"
  by (simp_all add: finish_open_def Let_def set_um_per_pixel_map deduced_type_def)

text \<open>
  C7, as amended. For every file that \<^verbatim>\<open>open_tiff_file\<close> parses successfully into a
  zeroed descriptor and that has an IFD, the IFD at index 0 is MACRO when its
  description begins with "Macro", else LABEL when it begins with "Label", else LEVEL
  when it begins with "level" or the IFD has a tile width greater than 0, and UNKNOWN
  otherwise.
\<close>

theorem first_ifd_subimage_type:
  assumes "open_tiff_file F tiff_zero file = Some (Inr t)" and "ifds t \<noteq> []"
  shows "subimage_type (ifds t ! 0) =
     (if begins_with (image_description (ifds t ! 0)) ''Macro'' then TIFF_MACRO_SUBIMAGE
      else if begins_with (image_description (ifds t ! 0)) ''Label'' then TIFF_LABEL_SUBIMAGE
      else if begins_with (image_description (ifds t ! 0)) ''level'' \<or> tile_width (ifds t ! 0) > 0
      then TIFF_LEVEL_SUBIMAGE
      else TIFF_UNKNOWN_SUBIMAGE)"
proof -
  from assms(1) obtain bytes tiff1 fp1 off1 t2 fp2 where
    hdr: "read_tiff_header tiff_zero bytes = Inr (tiff1, fp1, off1)"
    and chain: "read_ifd_chain tiff1 fp1 off1 = Some (Inr (t2, fp2))"
    and t: "t = finish_open F t2"
    by (auto simp: open_tiff_file_def split: option.splits sum.splits prod.splits)
  have "ifds tiff1 = []" and "ifd_count tiff1 = 0"
    using hdr
    by (auto simp: read_tiff_header_def tiff_zero_def Let_def split: if_splits prod.splits)
  then have "chain_inv tiff1"
    by (simp add: chain_inv_def)
  then have inv: "chain_inv t2"
    using read_ifd_chain_inv [OF chain] by simp
  have ne: "ifds t2 \<noteq> []"
    using assms(2) t finish_open_keeps(1) [of F t2] by (metis map_is_Nil_conv)
  have len: "0 < length (ifds t)"
    using assms(2) by simp
  have len2: "0 < length (ifds t2)"
    using ne by simp
  have "subimage_type (ifds t2 ! 0) = deduced_type (ifds t2 ! 0)" and "ifd_index (ifds t2 ! 0) = 0"
    using inv ne by (auto simp: chain_inv_def neq_Nil_conv)
  moreover have "subimage_type (ifds t ! 0) = subimage_type (ifds t2 ! 0)"
    using finish_open_keeps(1) [of F t2] t len len2 by (metis nth_map)
  moreover have "deduced_type (ifds t ! 0) = deduced_type (ifds t2 ! 0)"
    using finish_open_keeps(2) [of F t2] t len len2 by (metis nth_map)
  moreover have "ifd_index (ifds t ! 0) = ifd_index (ifds t2 ! 0)"
    using finish_open_keeps(3) [of F t2] t len len2 by (metis nth_map)
  ultimately have "subimage_type (ifds t ! 0) = deduced_type (ifds t ! 0)"
    and "ifd_index (ifds t ! 0) = 0"
    by simp_all
  then show ?thesis
    by (auto simp: deduced_type_def begins_with_def split: option.splits)
qed


theorem open_tiff_file_rejects_short_file_witness:
  "length short_tiff < 16
   \<and> open_tiff_file some_fpu tiff_zero (Some short_tiff) = Some (Inl ReadFailed)"
proof -
  have h: "length short_tiff < 16"
    by (simp add: short_tiff_def)
  show ?thesis
    using h open_tiff_file_rejects_short_file [OF h, of some_fpu tiff_zero]
    by (simp add: short_tiff_def)
qed

theorem tile_byte_counts_mismatch_fails_witness:
  "read_tiff_header tiff_zero mismatch_tiff =
     Inr (tiff_zero\<lparr>bytesize_of_offsets := 4\<rparr>, \<lparr>contents = mismatch_tiff, fpos = 16\<rparr>, 8)
   \<and> read_ifd_entries (tiff_zero\<lparr>bytesize_of_offsets := 4\<rparr>) \<lparr>contents = mismatch_tiff, fpos = 16\<rparr> 8 =
     Inr ([\<lparr>code = 324, data_type = 4, data_count = 2,
              data = [38, 0, 0, 0, 0, 0, 0, 0], data_is_offset = True\<rparr>]
          @ \<lparr>code = 325, data_type = 4, data_count = 1,
              data = [0xD0, 0x07, 0, 0, 0, 0, 0, 0], data_is_offset = False\<rparr> # [],
          \<lparr>contents = mismatch_tiff, fpos = 34\<rparr>)
   \<and> read_ifd_tags (tiff_zero\<lparr>bytesize_of_offsets := 4\<rparr>) \<lparr>contents = mismatch_tiff, fpos = 34\<rparr>
        (tiff_ifd_zero\<lparr>ifd_index := ifd_count (tiff_zero\<lparr>bytesize_of_offsets := 4\<rparr>),
                       color_space := TIFF_PHOTOMETRIC_RGB\<rparr>)
        [\<lparr>code = 324, data_type = 4, data_count = 2,
              data = [38, 0, 0, 0, 0, 0, 0, 0], data_is_offset = True\<rparr>]
      = Inr (tiff_ifd_zero\<lparr>ifd_index := 0, color_space := TIFF_PHOTOMETRIC_RGB,
                            tile_count := 2, tile_offsets := Some [1000, 3000]\<rparr>,
             \<lparr>contents = mismatch_tiff, fpos = 34\<rparr>)
   \<and> tiff_read_ifd (tiff_zero\<lparr>bytesize_of_offsets := 4\<rparr>) \<lparr>contents = mismatch_tiff, fpos = 16\<rparr>
          (tiff_ifd_zero\<lparr>ifd_index := ifd_count (tiff_zero\<lparr>bytesize_of_offsets := 4\<rparr>)\<rparr>) 8
        = Inl TileCountMismatch
   \<and> open_tiff_file some_fpu tiff_zero (Some mismatch_tiff) = Some (Inl TileCountMismatch)"
proof -
  let ?T = "tiff_zero\<lparr>bytesize_of_offsets := 4\<rparr>"
  let ?fp = "\<lparr>contents = mismatch_tiff, fpos = 16\<rparr>"
  let ?fq = "\<lparr>contents = mismatch_tiff, fpos = 34\<rparr>"
  let ?pre = "[\<lparr>code = 324, data_type = 4, data_count = 2,
              data = [38, 0, 0, 0, 0, 0, 0, 0], data_is_offset = True\<rparr>]"
  let ?t = "\<lparr>code = 325, data_type = 4, data_count = 1,
              data = [0xD0, 0x07, 0, 0, 0, 0, 0, 0], data_is_offset = False\<rparr>"
  let ?ifd = "tiff_ifd_zero\<lparr>ifd_index := 0, color_space := TIFF_PHOTOMETRIC_RGB,
                            tile_count := 2, tile_offsets := Some [1000, 3000]\<rparr>"
  have h1: "read_tiff_header tiff_zero mismatch_tiff = Inr (?T, ?fp, 8)"
    by (simp add: tiff_eval mismatch_tiff_def)
  have h2: "ifd_chain_state 0 ?T ?fp 8 = Some (?T, ?fp, 8)"
    by simp
  have h3: "(8 :: u64) \<noteq> 0"
    by simp
  have h4: "read_ifd_entries ?T ?fp 8 = Inr (?pre @ ?t # [], ?fq)"
    by (simp add: tiff_eval mismatch_tiff_def)
  have h5: "read_ifd_tags ?T ?fq
      (tiff_ifd_zero\<lparr>ifd_index := ifd_count ?T, color_space := TIFF_PHOTOMETRIC_RGB\<rparr>) ?pre
      = Inr (?ifd, ?fq)"
    by (simp add: tiff_eval mismatch_tiff_def)
  have h6: "code ?t = TIFF_TAG_TILE_BYTE_COUNTS"
    by simp
  have h7: "data_count ?t \<noteq> established_tile_count 0 ?pre"
    by simp
  show ?thesis
    using tile_byte_counts_mismatch_fails [OF h1 h2 h3 h4 h5 h6 h7, of some_fpu] h1 h4 h5
    by simp
qed

theorem first_ifd_unknown_counterexample:
  "(case open_tiff_file some_fpu tiff_zero (Some untiled_tiff) of
      Some (Inr t) \<Rightarrow>
        map subimage_type (ifds t) = [TIFF_UNKNOWN_SUBIMAGE]
        \<and> map image_description (ifds t) = [None] \<and> map tile_width (ifds t) = [0]
    | _ \<Rightarrow> False)"
  by (simp add: tiff_eval untiled_tiff_def)

theorem first_ifd_subimage_type_witness:
  "(case open_tiff_file some_fpu tiff_zero (Some tiled_tiff) of
      Some (Inr t) \<Rightarrow>
        ifds t \<noteq> [] \<and> image_description (ifds t ! 0) = None \<and> tile_width (ifds t ! 0) = 512
        \<and> subimage_type (ifds t ! 0) = TIFF_LEVEL_SUBIMAGE
    | _ \<Rightarrow> False)"
proof -
  obtain t where t: "open_tiff_file some_fpu tiff_zero (Some tiled_tiff) = Some (Inr t)"
    and ne: "ifds t \<noteq> []"
    and d: "image_description (ifds t ! 0) = None" "tile_width (ifds t ! 0) = 512"
    by (simp add: tiff_eval tiled_tiff_def)
  show ?thesis
    using first_ifd_subimage_type [OF t ne] t ne d
    by (simp add: begins_with_def)
qed

subsection \<open>Byte order\<close>

text \<open>
  C3. The code at the failing input: the big-endian entry for YCbCrSubSampling, two
  16-bit values 2 and 1 stored inline. \<^verbatim>\<open>maybe_swap_tiff_field\<close> swaps the first
  element only; the second stays in file order, and \<^verbatim>\<open>tiff_read_ifd\<close> reads it as 256.
  The little-endian entry gives 2 and 1.
\<close>

theorem inline_swap_first_element_only:
  "decode_tag False True ycbcr_entry_be =
     Inr \<lparr>code = 530, data_type = 3, data_count = 2,
          data = [0x02, 0x00, 0x00, 0x01, 0, 0, 0, 0], data_is_offset = False\<rparr>
   \<and> decode_tag False False ycbcr_entry_le =
     Inr \<lparr>code = 530, data_type = 3, data_count = 2,
          data = [0x02, 0x00, 0x01, 0x00, 0, 0, 0, 0], data_is_offset = False\<rparr>
   \<and> load_u16 (drop 2 [0x02, 0x00, 0x00, 0x01, 0, 0, 0, 0 :: u8]) = 256"
  by (simp add: tag_eval ycbcr_entry_be_def ycbcr_entry_le_def)

text \<open>
  C4. The code at the failing input: the same one-IFD file written in the two byte
  orders. Both parses succeed, and they differ in the vertical chroma subsampling, 1
  from the little-endian file and 256 from the big-endian one.
\<close>

theorem endianness_twins_differ:
  "(case (open_tiff_file F tiff_zero (Some twin_le), open_tiff_file F tiff_zero (Some twin_be)) of
      (Some (Inr a), Some (Inr b)) \<Rightarrow>
        map image_width (ifds a) = [512] \<and> map image_width (ifds b) = [512]
        \<and> map chroma_subsampling_horizontal (ifds a) = [2]
        \<and> map chroma_subsampling_horizontal (ifds b) = [2]
        \<and> map chroma_subsampling_vertical (ifds a) = [1]
        \<and> map chroma_subsampling_vertical (ifds b) = [256]
    | _ \<Rightarrow> False)"
  by (simp add: tiff_eval twin_le_def twin_be_def)


subsection \<open>Bytes of words and blocks\<close>


lemma length_store [simp]:
  "length (store_u16 a) = 2" "length (store_u32 b) = 4" "length (store_u64 c) = 8"
  by (simp_all add: store_u16_def store_u32_def store_u64_def)

lemma load_store_u64 [simp]: "load_u64 (store_u64 w @ rest) = w"
proof -
  have "unat w < 256 ^ 8"
    using unsigned_less [of w, where 'a = nat] by simp
  then show ?thesis
    by (simp add: load_u64_def store_u64_def le_nat_le_bytes_nat)
qed

lemma load_store_u32 [simp]: "load_u32 (store_u32 w @ rest) = w"
proof -
  have "unat w < 256 ^ 4"
    using unsigned_less [of w, where 'a = nat] by simp
  then show ?thesis
    by (simp add: load_u32_def store_u32_def le_nat_le_bytes_nat)
qed

lemma load_store_u16 [simp]: "load_u16 (store_u16 w @ rest) = w"
proof -
  have "unat w < 256 ^ 2"
    using unsigned_less [of w, where 'a = nat] by simp
  then show ?thesis
    by (simp add: load_u16_def store_u16_def le_nat_le_bytes_nat)
qed

lemma length_block_bytes [simp]: "length (block_bytes b) = 16"
  by (simp add: block_bytes_def)

lemma block_of_bytes_block_bytes [simp]: "block_of_bytes (block_bytes b @ rest) = b"
  by (simp add: block_of_bytes_def block_bytes_def)

lemma block_of_bytes_block_bytes' [simp]: "block_of_bytes (block_bytes b) = b"
  using block_of_bytes_block_bytes [of b "[]"] by simp

lemma load_store' [simp]:
  "load_u16 (store_u16 a) = a" "load_u32 (store_u32 b) = b" "load_u64 (store_u64 c) = c"
  using load_store_u16 [of a "[]"] load_store_u32 [of b "[]"] load_store_u64 [of c "[]"]
  by simp_all

lemma read_bytes_append [simp]:
  "read_bytes (pre @ xs @ rest) (int (length pre)) (length xs) = Some xs"
  by (simp add: read_bytes_def)

lemma pop_cur:
  "pop_from_buffer (cur pre (xs @ rest)) (int (length xs)) = Some (int (length pre), cur (pre @ xs) rest)"
  by (simp add: pop_from_buffer_def cur_def)

lemma pop_block_cur:
  "pop_block_from_buffer (cur pre (block_bytes b @ rest)) = Inr (b, cur (pre @ block_bytes b) rest)"
  using pop_cur [of pre "block_bytes b" rest] read_bytes_append [of pre "block_bytes b" rest]
  by (simp add: pop_block_from_buffer_def cur_def)

lemma read_blocks_no_ifds:
  "ifd_count tiff = 0 \<Longrightarrow> \<exists>e. read_blocks tiff c p = Some (Inl e)"
  by (subst read_blocks.simps) (auto split: sum.splits option.splits prod.splits)

lemma unat_of_nat_small: "n < 2^64 \<Longrightarrow> unat (of_nat n :: u64) = n"
  by (simp add: unat_of_nat)
lemma sint_of_nat_small: "n < 2^63 \<Longrightarrow> sint (of_nat n :: u64) = int n"
proof -
  assume n: "n < 2^63"
  have "sint (of_nat n :: u64) = signed_take_bit 63 (int n)"
    using sint_sbintrunc' [of "int n", where 'a = 64] by simp
  also have "\<dots> = int n"
    using n by (intro signed_take_bit_int_eq_self) simp_all
  finally show ?thesis by simp
qed
lemma sint_of_nat_small32: "n < 2^31 \<Longrightarrow> sint (of_nat n :: u32) = int n"
proof -
  assume n: "n < 2^31"
  have "sint (of_nat n :: u32) = signed_take_bit 31 (int n)"
    using sint_sbintrunc' [of "int n", where 'a = 32] by simp
  also have "\<dots> = int n"
    using n by (intro signed_take_bit_int_eq_self) simp_all
  finally show ?thesis by simp
qed
lemma ucast_of_nat_unat: "(ucast (w :: u64) :: u32) = of_nat (unat w)"
  by simp
lemma sint_ucast_small: "unat (len::u64) < 2^31 \<Longrightarrow> sint (ucast len :: u32) = int (unat len)"
  using sint_of_nat_small32 [of "unat len"] by simp

lemma cur_Nil: "\<lparr>buf = buffer, pos = 0, bytes_left = int (length buffer)\<rparr> = cur [] buffer"
  by (simp add: cur_def)

lemma buf_cur [simp]: "buf (cur pre rest) = pre @ rest"
  by (simp add: cur_def)


subsection \<open>The HTTP headers\<close>


lemma http_headers_split:
  "http_headers T = http_prefix @ bytes_of (left_justified 16 (decimal (unat T))) @ crlf @ crlf"
  by (simp add: http_headers_def http_prefix_def)

lemma length_http_prefix: "length http_prefix = 92"
  by (simp add: http_prefix_def bytes_of_def crlf_def)

lemma http_prefix_windows:
  "list_all (\<lambda>off. \<forall>X. take 4 (drop off (http_prefix @ X)) \<noteq> crlf @ crlf) [0..<92]"
  by (simp add: http_prefix_def bytes_of_def crlf_def upt_rec)

lemma decimal_no_cr: "CHR 0x0D \<notin> set (decimal n)"
proof (induction n rule: decimal.induct)
  case (1 n)
  have d: "char_of (48 + k) \<noteq> CHR 0x0D" if k: "k < 10" for k :: nat
  proof
    assume e: "char_of (48 + k) = CHR 0x0D"
    have "of_char (char_of (48 + k)) = (48 + k) mod 256"
      by simp
    with e have "(13::nat) = (48 + k) mod 256"
      by simp
    with k show False by simp
  qed
  show ?case
  proof (cases "n < 10")
    case True
    then show ?thesis
      using d [of n] by (subst decimal.simps) auto
  next
    case False
    have "n mod 10 < 10" by simp
    then have "char_of (48 + n mod 10) \<noteq> CHR 0x0D"
      by (rule d)
    with False 1 show ?thesis
      by (subst decimal.simps) auto
  qed
qed

lemma content_length_no_cr: "0x0D \<notin> set (bytes_of (left_justified 16 (decimal n)))"
proof -
  have "CHR 0x0D \<notin> set (left_justified 16 (decimal n))"
    using decimal_no_cr [of n] by (auto simp: left_justified_def)
  moreover have "\<And>c. (of_nat (of_char c) :: u8) = 0x0D \<Longrightarrow> c = CHR 0x0D"
  proof -
    fix c :: char
    assume a: "(of_nat (of_char c) :: u8) = 0x0D"
    have "of_char (char_of (of_char c :: nat)) = (of_char c :: nat) mod 256"
      by (rule of_char_of)
    then have "(of_char c :: nat) = of_char c mod 256"
      by simp
    then have "(of_char c :: nat) < 256"
      using mod_less_divisor [of 256 "of_char c :: nat"] by simp
    then have "unat (of_nat (of_char c) :: u8) = of_char c"
      by (simp add: unat_of_nat)
    with a have "(of_char c :: nat) = 13" by simp
    then have "(of_char c :: nat) = of_char CHR 0x0D" by simp
    then show "c = CHR 0x0D" by (rule of_char_eqI)
  qed
  ultimately show ?thesis
    by (auto simp: bytes_of_def)
qed


lemma window_head:
  assumes "take 4 (drop j s) = crlf @ crlf" and "j < length s"
  shows "s ! j = 0x0D"
proof -
  have "hd (take 4 (drop j s)) = s ! j"
    using assms(2) by (simp add: hd_drop_conv_nth)
  then show ?thesis
    using assms(1) by (simp add: crlf_def)
qed

lemma find_end_of_http_headers_serialized:
  assumes "rest \<noteq> []"
  shows "find_end_of_http_headers (http_headers T @ rest) = Inr (int (length (http_headers T)))"
proof -
  define D where "D = bytes_of (left_justified 16 (decimal (unat T)))"
  define s where "s = http_headers T @ rest"
  define n0 where "n0 = 92 + length D"
  let ?Q = "\<lambda>off. take 4 (drop off s) = crlf @ crlf"
  have H: "http_headers T = http_prefix @ D @ crlf @ crlf"
    by (simp add: http_headers_split D_def)
  have lenH: "length (http_headers T) = n0 + 4"
    by (simp add: H n0_def length_http_prefix crlf_def)
  have s: "s = http_prefix @ D @ crlf @ crlf @ rest"
    by (simp add: s_def H)
  have lens: "length s = n0 + 4 + length rest"
    by (simp add: s_def lenH)
  have rest: "0 < length rest"
    using assms by simp
  have at: "?Q n0"
  proof -
    have "drop n0 s = crlf @ crlf @ rest"
      by (simp add: s n0_def length_http_prefix)
    then show ?thesis by (simp add: crlf_def)
  qed
  have before: "\<not> ?Q j" if j: "j < n0" for j
  proof (cases "j < 92")
    case True
    then have "j \<in> set [0..<92]" by simp
    then have "\<forall>X. take 4 (drop j (http_prefix @ X)) \<noteq> crlf @ crlf"
      using http_prefix_windows by (simp only: list_all_iff) blast
    then have "take 4 (drop j (http_prefix @ (D @ crlf @ crlf @ rest))) \<noteq> crlf @ crlf"
      by blast
    then show ?thesis unfolding s .
  next
    case False
    then have jD: "j - 92 < length D"
      using j by (simp add: n0_def)
    have "s ! j = D ! (j - 92)"
      using False jD by (simp add: s nth_append length_http_prefix)
    moreover have "D ! (j - 92) \<in> set D"
      using jD by simp
    moreover have "0x0D \<notin> set D"
      by (simp add: D_def content_length_no_cr)
    ultimately have "s ! j \<noteq> 0x0D"
      by metis
    moreover have "j < length s"
      using j lens by simp
    ultimately show ?thesis
      using window_head by blast
  qed
  have "find ?Q [0..<length s - 4] = Some n0"
  proof -
    let ?xs = "[0..<length s - 4]"
    have n0lt': "n0 < length s - 4"
      using lens assms by (cases rest) simp_all
    then have n0lt: "n0 < length ?xs"
      by simp
    have nth: "?xs ! j = j" if "j \<le> n0" for j
    proof -
      have "j < length s - 4"
        using that n0lt' by simp
      then show ?thesis by simp
    qed
    have a: "?Q (?xs ! n0)"
      using at nth [of n0] by simp
    have b: "n0 = ?xs ! n0"
      using nth [of n0] by simp
    have c: "\<forall>j<n0. \<not> ?Q (?xs ! j)"
    proof (intro allI impI)
      fix j assume "j < n0"
      then show "\<not> ?Q (?xs ! j)"
        using before [of j] nth [of j] by simp
    qed
    show ?thesis
      unfolding find_Some_iff
      using n0lt a b c by (intro exI [of _ n0]) (simp only: simp_thms)
  qed
  moreover have "\<not> length s < 4"
    using lens by simp
  ultimately have "find_end_of_http_headers s = Inr (int n0 + 4)"
    by (simp add: find_end_of_http_headers_def)
  then show ?thesis
    by (simp add: s_def lenH)
qed


subsection \<open>The first block\<close>


lemma block_bytes_not_Nil [simp]: "block_bytes b \<noteq> []"
  using length_block_bytes [of b] by (cases "block_bytes b") simp_all

lemma packed_layout_simps [simp]:
  "header_size packed_layout = 76" "ifd_size packed_layout = 80"
  "header_bytes packed_layout = packed_header_bytes"
  "header_of_bytes packed_layout = packed_header_of_bytes"
  "ifd_bytes packed_layout = packed_ifd_bytes"
  "ifd_of_bytes packed_layout = packed_ifd_of_bytes"
  by (simp_all add: packed_layout_def)

lemma first_block_lz4:
  assumes "find_end_of_http_headers buffer = Inr (int (length hdr))"
    and "buffer = hdr @ block_bytes \<lparr>block_type = SERIAL_BLOCK_LZ4_COMPRESSED_DATA,
                      block_index = idx, block_length = len\<rparr> @ cdata @ rest"
    and "length cdata = unat len" and "unat len < 2 ^ 31"
  shows "first_block Z buffer =
     (let b = \<lparr>block_type = SERIAL_BLOCK_LZ4_COMPRESSED_DATA, block_index = idx, block_length = len\<rparr>;
          stay = Inr (b, cur (hdr @ block_bytes b @ cdata) rest, int (length hdr) + 16)
      in case lz4_decompress_safe Z cdata (int (length cdata)) (sint idx) of
           None \<Rightarrow> stay
         | Some out \<Rightarrow>
             if 0 < int (length out) then
               (if int (length out) \<noteq> sint idx then stay
                else (case pop_block_from_buffer (cur [] out) of
                        Inl e \<Rightarrow> Inl e
                      | Inr (b', c3) \<Rightarrow> Inr (b', c3, int (length hdr) + 16)))
             else stay)"
proof -
  let ?b = "\<lparr>block_type = SERIAL_BLOCK_LZ4_COMPRESSED_DATA, block_index = idx, block_length = len\<rparr>"
  have cs: "sint (ucast len :: u32) = int (length cdata)"
    using assms(3,4) by (simp add: sint_ucast_small)
  have p0: "pop_from_buffer (cur [] buffer) (int (length hdr)) = Some (0, cur hdr (block_bytes ?b @ cdata @ rest))"
    using pop_cur [of "[]" hdr "block_bytes ?b @ cdata @ rest"] assms(2) by simp
  have p1: "pop_block_from_buffer (cur hdr (block_bytes ?b @ cdata @ rest)) =
      Inr (?b, cur (hdr @ block_bytes ?b) (cdata @ rest))"
    by (rule pop_block_cur)
  have p2: "pop_from_buffer (cur (hdr @ block_bytes ?b) (cdata @ rest)) (int (length cdata)) =
      Some (int (length (hdr @ block_bytes ?b)), cur ((hdr @ block_bytes ?b) @ cdata) rest)"
    by (rule pop_cur)
  have r: "read_bytes ((hdr @ block_bytes ?b) @ cdata @ rest) (int (length (hdr @ block_bytes ?b))) (length cdata) = Some cdata"
    by (rule read_bytes_append)
  show ?thesis
    unfolding first_block_def cur_Nil
    using assms(1) p0 p1 p2 r cs
    by (auto simp: Let_def cur_Nil split: option.splits sum.splits)
qed


lemmas serial_eval =
  word_eval Let_def bytes_of_def
  block_bytes_def block_of_bytes_def used_size_def push_size_def push_block_def
  push_block_with_def serial_header_of_def serial_ifd_of_def ifd_payload_size_def
  u64s_bytes_def u64s_of_bytes_def bytes_at_def u64s_at_def push_ifd_blocks_def
  serial_total_size_def serialize_uncompressed_def
  store_bool32_def load_bool32_def store_subimage_type_def
  load_subimage_type_def packed_header_bytes_def packed_header_of_bytes_def
  packed_ifd_bytes_def packed_ifd_of_bytes_def
  tiff_zero_def tiff_ifd_zero_def

lemmas http_eval = http_headers_def left_justified_def decimal.simps crlf_def bytes_of_def
  replicate_numeral_Cons

lemma no_ifd_uncompressed:
  "serialize_uncompressed packed_layout no_ifd_image =
     Inr \<lparr>http_part = http_headers 124, used_data = no_ifd_payload, capacity = 124\<rparr>"
  by (simp add: serial_eval no_ifd_image_def no_ifd_payload_def)

lemma no_ifd_rle:
  "rle_encode no_ifd_payload = no_ifd_compressed"
  "rle_decode no_ifd_compressed = no_ifd_payload"
  by (simp_all add: no_ifd_payload_def no_ifd_compressed_def replicate_numeral_Cons)

lemma no_ifd_serialize:
  "tiff_serialize packed_layout run_length_codec no_ifd_image =
     Inr \<lparr>http_part = http_headers 124,
          used_data = block_bytes \<lparr>block_type = SERIAL_BLOCK_LZ4_COMPRESSED_DATA,
                                    block_index = 124, block_length = 20\<rparr> @ no_ifd_compressed,
          capacity = 124\<rparr>"
proof -
  have l: "length no_ifd_compressed = 20"
    by (simp add: no_ifd_compressed_def)
  have ne: "no_ifd_compressed \<noteq> []"
    by (simp add: no_ifd_compressed_def)
  show ?thesis
    by (simp add: tiff_serialize_def no_ifd_uncompressed compress_payload_def Let_def
        run_length_codec_def no_ifd_rle l ne push_block_with_def push_block_def push_size_def
        used_size_def)
qed

lemma length_http_headers_124: "length (http_headers 124) = 112"
  by (simp add: http_eval)

lemma no_ifd_first_block:
  "first_block run_length_codec no_ifd_serialized =
     Inr (\<lparr>block_type = SERIAL_BLOCK_TIFF_HEADER_AND_META, block_index = 0, block_length = 16\<rparr>,
          \<lparr>buf = no_ifd_payload, pos = 16, bytes_left = 108\<rparr>, 128)"
proof -
  have f: "find_end_of_http_headers no_ifd_serialized = Inr (int (length (http_headers 124)))"
    unfolding no_ifd_serialized_def
    by (rule find_end_of_http_headers_serialized) simp
  have l: "length no_ifd_compressed = unat (20 :: u64)"
    by (simp add: no_ifd_compressed_def)
  have d: "lz4_decompress_safe run_length_codec no_ifd_compressed (int (length no_ifd_compressed)) (sint (124 :: u32))
             = Some no_ifd_payload"
    by (simp add: run_length_codec_def no_ifd_rle) (simp add: no_ifd_payload_def)
  have p: "pop_block_from_buffer (cur [] no_ifd_payload) =
      Inr (\<lparr>block_type = SERIAL_BLOCK_TIFF_HEADER_AND_META, block_index = 0, block_length = 16\<rparr>,
          \<lparr>buf = no_ifd_payload, pos = 16, bytes_left = 108\<rparr>)"
    by (simp add: no_ifd_payload_def cur_def pop_block_from_buffer_def pop_from_buffer_def
        read_bytes_def block_of_bytes_def word_eval)
  have len: "int (length no_ifd_payload) = sint (124 :: u32)" "0 < int (length no_ifd_payload)"
    by (simp_all add: no_ifd_payload_def)
  have "first_block run_length_codec no_ifd_serialized =
      (case pop_block_from_buffer (cur [] no_ifd_payload) of
         Inl e \<Rightarrow> Inl e
       | Inr (b', c3) \<Rightarrow> Inr (b', c3, int (length (http_headers 124)) + 16))"
    using first_block_lz4 [where hdr = "http_headers 124" and idx = 124 and len = 20
        and cdata = no_ifd_compressed and rest = "[]" and Z = run_length_codec
        and buffer = no_ifd_serialized, OF f _ l] d len
    by (simp add: no_ifd_serialized_def Let_def)
  then show ?thesis
    by (simp add: p length_http_headers_124)
qed

lemma no_ifd_header:
  "read_serial_header packed_layout run_length_codec no_ifd_serialized =
     Inr (serial_header_of no_ifd_image, \<lparr>buf = no_ifd_payload, pos = 92, bytes_left = 32\<rparr>)"
  by (simp add: read_serial_header_def no_ifd_first_block pop_from_buffer_def read_bytes_def)
    (simp add: no_ifd_payload_def packed_header_of_bytes_def serial_header_of_def
      no_ifd_image_def tiff_zero_def load_bool32_def word_eval)

lemma no_ifd_deserialize:
  "tiff_deserialize packed_layout run_length_codec no_ifd_serialized = Some (Inl NonExistentIFD)"
  by (simp add: tiff_deserialize_def no_ifd_header Let_def tiff_of_serial_header_def
      serial_header_of_def no_ifd_image_def tiff_zero_def
      pop_block_from_buffer_def pop_from_buffer_def read_bytes_def read_blocks.simps)
    (simp add: no_ifd_payload_def block_of_bytes_def word_eval)


lemma one_level_uncompressed:
  "serialize_uncompressed packed_layout one_level_image =
     Inr \<lparr>http_part = http_headers 292, used_data = one_level_payload, capacity = 292\<rparr>"
  by (simp add: serial_eval one_level_image_def one_level_payload_def)

lemma one_level_rle: "rle_encode one_level_payload = one_level_compressed"
  by (simp add: one_level_payload_def one_level_compressed_def)

lemma http_headers_292:
  "http_headers 292 =
     bytes_of ''HTTP/1.1 200 OK'' @ crlf @ bytes_of ''Connection: close'' @ crlf
     @ bytes_of ''Content-type: application/octet-stream'' @ crlf
     @ bytes_of ''Content-length: 292             '' @ crlf @ crlf"
  by (simp add: http_eval)

subsection \<open>Serializing and deserializing\<close>

text \<open>
  C2. The code at the failing input: the descriptor with one level, serialized with
  the packed layout and the run-length codec. The payload has 292 bytes before the
  compression and 148 after it (a block header and 132 compressed bytes), and the
  headers written after the compression still say \<^verbatim>\<open>Content-length: 292\<close>.
\<close>

theorem content_length_after_compression:
  "(case tiff_serialize packed_layout run_length_codec one_level_image of
      Inr b \<Rightarrow>
        http_part b =
          bytes_of ''HTTP/1.1 200 OK'' @ crlf @ bytes_of ''Connection: close'' @ crlf
          @ bytes_of ''Content-type: application/octet-stream'' @ crlf
          @ bytes_of ''Content-length: 292             '' @ crlf @ crlf
        \<and> used_data b =
          block_bytes \<lparr>block_type = SERIAL_BLOCK_LZ4_COMPRESSED_DATA, block_index = 292,
                          block_length = 132\<rparr> @ one_level_compressed
        \<and> length (used_data b) = 148
    | Inl e \<Rightarrow> False)"
proof -
  have l: "length one_level_compressed = 132"
    by (simp add: one_level_compressed_def)
  have ne: "one_level_compressed \<noteq> []"
    by (simp add: one_level_compressed_def)
  have "tiff_serialize packed_layout run_length_codec one_level_image =
     Inr \<lparr>http_part = http_headers 292,
          used_data = block_bytes \<lparr>block_type = SERIAL_BLOCK_LZ4_COMPRESSED_DATA,
                                    block_index = 292, block_length = 132\<rparr> @ one_level_compressed,
          capacity = 292\<rparr>"
    by (simp add: tiff_serialize_def one_level_uncompressed compress_payload_def Let_def
        run_length_codec_def one_level_rle l ne push_block_with_def push_block_def push_size_def
        used_size_def)
  then show ?thesis
    by (simp add: http_headers_292 l)
qed

text \<open>
  C9. For every buffer in which \<^verbatim>\<open>tiff_deserialize\<close> gets to a header record with
  \<^verbatim>\<open>ifd_count = 0\<close>, it returns failure: with no IFD the index test of the payload loop
  rejects every block, whatever its type, so also the terminator.
\<close>

theorem deserialize_zero_ifds_fails:
  assumes "read_serial_header L Z buffer = Inr (h, c)" and "s_ifd_count h = 0"
  shows "\<exists>e. tiff_deserialize L Z buffer = Some (Inl e)"
proof -
  have z: "ifd_count (tiff_of_serial_header h) = 0"
    using assms(2) by (simp add: tiff_of_serial_header_def)
  show ?thesis
    using assms(1) z read_blocks_no_ifds
    by (auto simp: tiff_deserialize_def Let_def split: sum.splits option.splits prod.splits)
qed


theorem deserialize_zero_ifds_fails_witness:
  "tiff_serialize packed_layout run_length_codec no_ifd_image =
     Inr \<lparr>http_part = http_headers 124,
          used_data = block_bytes \<lparr>block_type = SERIAL_BLOCK_LZ4_COMPRESSED_DATA,
                                    block_index = 124, block_length = 20\<rparr> @ no_ifd_compressed,
          capacity = 124\<rparr>
   \<and> read_serial_header packed_layout run_length_codec no_ifd_serialized =
     Inr (serial_header_of no_ifd_image, \<lparr>buf = no_ifd_payload, pos = 92, bytes_left = 32\<rparr>)
   \<and> s_ifd_count (serial_header_of no_ifd_image) = 0
   \<and> (\<exists>e. tiff_deserialize packed_layout run_length_codec no_ifd_serialized = Some (Inl e))"
proof -
  have z: "s_ifd_count (serial_header_of no_ifd_image) = 0"
    by (simp add: serial_header_of_def no_ifd_image_def tiff_zero_def)
  show ?thesis
    using deserialize_zero_ifds_fails [OF no_ifd_header z] no_ifd_serialize no_ifd_header z
    by simp
qed

text \<open>
  The descriptor without IFDs is serialized, and its bytes are not deserialized: the
  terminator block fails the index test.
\<close>

lemma zero_ifd_round_trip_fails:
  "(case tiff_serialize packed_layout run_length_codec no_ifd_image of
      Inr b \<Rightarrow>
        tiff_deserialize packed_layout run_length_codec (serialized_bytes b) = Some (Inl NonExistentIFD)
    | Inl e \<Rightarrow> False)"
  using no_ifd_deserialize
  by (simp add: no_ifd_serialize serialized_bytes_def no_ifd_serialized_def)

lemma lz4_size_mismatch:
  assumes "find_end_of_http_headers buffer = Inr (int (length hdr))"
    and "buffer = hdr @ block_bytes \<lparr>block_type = SERIAL_BLOCK_LZ4_COMPRESSED_DATA,
                      block_index = idx, block_length = len\<rparr> @ cdata @ rest"
    and "length cdata = unat len" and "unat len < 2 ^ 31"
    and "lz4_decompress_safe Z cdata (int (length cdata)) (sint idx) = Some out"
    and "out \<noteq> []" and "int (length out) \<noteq> sint idx"
  shows "tiff_deserialize L Z buffer = Some (Inl UnexpectedBlock)"
  using first_block_lz4 [OF assms(1-4), of Z] assms(5-7)
  by (simp add: tiff_deserialize_def read_serial_header_def Let_def)

text \<open>
  C6, as amended. When the first block after the HTTP headers is of type
  LZ4_COMPRESSED_DATA (with fewer than \<open>2^31\<close> bytes of compressed data) and the
  decompression returns a positive number of bytes that differs from the index field
  of the block, \<^verbatim>\<open>tiff_deserialize\<close> reports the mismatch, does not switch to the
  decompressed data, and returns failure at the next test, which requires a block of
  type HEADER_AND_META.
\<close>

theorem lz4_size_mismatch_fails:
  assumes "find_end_of_http_headers buffer = Inr (int (length hdr))"
    and "buffer = hdr @ block_bytes \<lparr>block_type = SERIAL_BLOCK_LZ4_COMPRESSED_DATA,
                      block_index = idx, block_length = len\<rparr> @ cdata @ rest"
    and "length cdata = unat len" and "unat len < 2 ^ 31"
    and "lz4_decompress_safe Z cdata (int (length cdata)) (sint idx) = Some out"
    and "out \<noteq> []" and "int (length out) \<noteq> sint idx"
  shows "tiff_deserialize L Z buffer = Some (Inl UnexpectedBlock)"
  using assms by (rule lz4_size_mismatch)

lemma short_lz4_stream_facts:
  "find_end_of_http_headers short_lz4_stream = Inr (int (length (http_headers 18)))"
  "length [0x01, 0x2A :: u8] = unat (2 :: u64)"
  "unat (2 :: u64) < 2 ^ 31"
  "lz4_decompress_safe run_length_codec [0x01, 0x2A] (int (length [0x01, 0x2A :: u8])) (sint (100 :: u32))
     = Some [0x2A]"
  "int (length [0x2A :: u8]) \<noteq> sint (100 :: u32)"
  unfolding short_lz4_stream_def
  by (rule find_end_of_http_headers_serialized) (simp_all add: run_length_codec_def)

theorem lz4_size_mismatch_counterexample:
  "tiff_deserialize packed_layout run_length_codec short_lz4_stream = Some (Inl UnexpectedBlock)"
  using lz4_size_mismatch [where hdr = "http_headers 18" and idx = 100 and len = 2
      and cdata = "[0x01, 0x2A]" and rest = "[]" and Z = run_length_codec and out = "[0x2A]"
      and buffer = short_lz4_stream and L = packed_layout]
    short_lz4_stream_facts
  by (simp add: short_lz4_stream_def)

theorem lz4_size_mismatch_fails_witness:
  "find_end_of_http_headers short_lz4_stream = Inr (int (length (http_headers 18)))
   \<and> short_lz4_stream =
       http_headers 18
       @ block_bytes \<lparr>block_type = SERIAL_BLOCK_LZ4_COMPRESSED_DATA, block_index = 100,
                       block_length = 2\<rparr>
       @ [0x01, 0x2A] @ []
   \<and> lz4_decompress_safe run_length_codec [0x01, 0x2A] 2 (sint (100 :: u32)) = Some [0x2A]
   \<and> tiff_deserialize packed_layout run_length_codec short_lz4_stream = Some (Inl UnexpectedBlock)"
  using lz4_size_mismatch_fails [where hdr = "http_headers 18" and idx = 100 and len = 2
      and cdata = "[0x01, 0x2A]" and rest = "[]" and Z = run_length_codec and out = "[0x2A]"
      and buffer = short_lz4_stream and L = packed_layout]
    short_lz4_stream_facts
  by (simp add: short_lz4_stream_def)

subsection \<open>Serializing a descriptor\<close>

lemma unat_used_size:
  "length (used_data b) < 2 ^ 64 \<Longrightarrow> unat (used_size b) = length (used_data b)"
  by (simp add: used_size_def unat_of_nat)

lemma push_size_ok:
  assumes "length (used_data b) + unat n \<le> unat (capacity b)"
    and "unat n \<le> length bytes"
  shows "push_size b bytes n = Inr (b\<lparr>used_data := used_data b @ take (unat n) bytes\<rparr>)"
proof -
  have cap: "unat (capacity b) < 2 ^ 64"
    using unsigned_less [of "capacity b", where 'a = nat] by simp
  have u: "unat (used_size b) = length (used_data b)"
    using assms(1) cap by (intro unat_used_size) simp
  have "unat (used_size b) + unat n < 2 ^ LENGTH(64)"
    using u assms(1) cap by simp
  then have "unat (used_size b + n) = unat (used_size b) + unat n"
    by (rule unat_add_lem [THEN iffD1])
  then have "\<not> used_size b + n > capacity b"
    using u assms(1) by (simp add: word_less_nat_alt)
  then show ?thesis
    using assms(2) by (simp add: push_size_def)
qed

lemma push_block_ok:
  assumes "length (used_data b) + 16 \<le> unat (capacity b)"
  shows "push_block b t i l =
     Inr (b\<lparr>used_data := used_data b @ block_bytes \<lparr>block_type = t, block_index = i, block_length = l\<rparr>\<rparr>)"
  using assms push_size_ok [of b 16 "block_bytes \<lparr>block_type = t, block_index = i, block_length = l\<rparr>"]
  by (simp add: push_block_def)

lemma push_block_with_ok:
  assumes "length (used_data b) + 16 + unat n \<le> unat (capacity b)"
    and le: "unat n \<le> length bytes"
  shows "push_block_with b t (of_nat i) n bytes =
     Inr (b\<lparr>used_data := used_data b @ block_with t i (take (unat n) bytes)\<rparr>)"
proof -
  have n: "of_nat (min (length bytes) (unat n)) = n"
    using le of_nat_unat [of n, where 'a = "64 word"] by (simp add: min_def)
  have "push_size (b\<lparr>used_data := used_data b @ block_bytes \<lparr>block_type = t, block_index = of_nat i, block_length = n\<rparr>\<rparr>) bytes n =
      Inr (b\<lparr>used_data := (used_data b @ block_bytes \<lparr>block_type = t, block_index = of_nat i, block_length = n\<rparr>) @ take (unat n) bytes\<rparr>)"
    using push_size_ok [of "b\<lparr>used_data := used_data b @ block_bytes \<lparr>block_type = t, block_index = of_nat i, block_length = n\<rparr>\<rparr>" n bytes]
      assms by simp
  then show ?thesis
    using assms push_block_ok [of b t "of_nat i" n]
    by (simp add: push_block_with_def block_with_def n)
qed

lemma length_u64s_bytes [simp]: "length (u64s_bytes xs) = 8 * length xs"
  by (induction xs) (simp_all add: u64s_bytes_def)

lemma u64s_bytes_Cons: "u64s_bytes (x # xs) = store_u64 x @ u64s_bytes xs"
  by (simp add: u64s_bytes_def)

lemma take_u64s_bytes: "take (8 * k) (u64s_bytes xs) = u64s_bytes (take k xs)"
proof (induction xs arbitrary: k)
  case Nil
  then show ?case by (simp add: u64s_bytes_def)
next
  case (Cons x xs)
  show ?case
  proof (cases k)
    case 0
    then show ?thesis by (simp add: u64s_bytes_def)
  next
    case (Suc j)
    then show ?thesis
      using Cons [of j] by (simp add: u64s_bytes_Cons)
  qed
qed

lemma u64s_at_bytes: "u64s_at p = u64s_bytes (u64s_at_list p)"
  by (simp add: u64s_at_def u64s_at_list_def u64s_bytes_def split: option.splits)

lemma unat_times_8:
  assumes "8 * unat (n :: u64) < 2 ^ 64"
  shows "unat (n * 8) = 8 * unat n"
proof -
  have "unat n * unat (8 :: u64) < 2 ^ LENGTH(64)"
    using assms by simp
  then have "unat (n * 8) = unat n * unat (8 :: u64)"
    by (rule unat_mult_lem [THEN iffD1])
  then show ?thesis by simp
qed

lemma length_block_with [simp]: "length (block_with t i ys) = 16 + length ys"
  by (simp add: block_with_def)

lemma length_ifd_stream:
  assumes "ifd_buffers_ok ifd"
  shows "length (ifd_stream i ifd) = ifd_stream_size ifd"
  using assms
  by (simp add: ifd_stream_def ifd_stream_size_def ifd_buffers_ok_def
      image_description_text_def jpeg_tables_blob_def tile_offsets_vector_def
      tile_byte_counts_vector_def min_def)

lemma push_ifd_blocks_ok:
  assumes ok: "ifd_buffers_ok ifd"
    and room: "length (used_data b) + ifd_stream_size ifd \<le> unat (capacity b)"
  shows "push_ifd_blocks b i ifd = Inr (b\<lparr>used_data := used_data b @ ifd_stream i ifd\<rparr>)"
proof -
  have cap: "unat (capacity b) < 2 ^ 64"
    using unsigned_less [of "capacity b", where 'a = nat] by simp
  have t8: "unat (tile_count ifd * 8) = 8 * unat (tile_count ifd)"
    using room cap by (intro unat_times_8) (simp add: ifd_stream_size_def)
  define dd where "dd = image_description_text ifd"
  define oo where "oo = u64s_bytes (tile_offsets_vector ifd)"
  define cc where "cc = u64s_bytes (tile_byte_counts_vector ifd)"
  define jj where "jj = jpeg_tables_blob ifd"
  have lens: "length dd = unat (image_description_length ifd)"
      "length oo = 8 * unat (tile_count ifd)" "length cc = 8 * unat (tile_count ifd)"
      "length jj = unat (jpeg_tables_length ifd)"
    using ok by (simp_all add: dd_def oo_def cc_def jj_def ifd_buffers_ok_def
        image_description_text_def jpeg_tables_blob_def tile_offsets_vector_def
        tile_byte_counts_vector_def min_def)
  have oo: "take (unat (tile_count ifd * 8)) (u64s_at (tile_offsets ifd)) = oo"
    by (simp add: t8 u64s_at_bytes take_u64s_bytes oo_def tile_offsets_vector_def)
  have cc: "take (unat (tile_count ifd * 8)) (u64s_at (tile_byte_counts ifd)) = cc"
    by (simp add: t8 u64s_at_bytes take_u64s_bytes cc_def tile_byte_counts_vector_def)
  have room': "length (used_data b) + 64 + length dd + length oo + length cc + length jj
      \<le> unat (capacity b)"
    using room by (simp add: lens ifd_stream_size_def)
  define b1 where "b1 = b\<lparr>used_data := used_data b @ block_with SERIAL_BLOCK_TIFF_IMAGE_DESCRIPTION i dd\<rparr>"
  define b2 where "b2 = b1\<lparr>used_data := used_data b1 @ block_with SERIAL_BLOCK_TIFF_TILE_OFFSETS i oo\<rparr>"
  define b3 where "b3 = b2\<lparr>used_data := used_data b2 @ block_with SERIAL_BLOCK_TIFF_TILE_BYTE_COUNTS i cc\<rparr>"
  have s1: "push_block_with b SERIAL_BLOCK_TIFF_IMAGE_DESCRIPTION (of_nat i)
      (image_description_length ifd) (bytes_at (image_description ifd)) = Inr b1"
    using push_block_with_ok [of b "image_description_length ifd" "bytes_at (image_description ifd)"
        SERIAL_BLOCK_TIFF_IMAGE_DESCRIPTION i] room' ok lens
    by (simp add: b1_def dd_def image_description_text_def ifd_buffers_ok_def)
  have s2: "push_block_with b1 SERIAL_BLOCK_TIFF_TILE_OFFSETS (of_nat i)
      (tile_count ifd * 8) (u64s_at (tile_offsets ifd)) = Inr b2"
    using push_block_with_ok [of b1 "tile_count ifd * 8" "u64s_at (tile_offsets ifd)"
        SERIAL_BLOCK_TIFF_TILE_OFFSETS i] room' ok lens
    by (simp add: b2_def b1_def t8 u64s_at_bytes take_u64s_bytes oo_def tile_offsets_vector_def ifd_buffers_ok_def)
  have s3: "push_block_with b2 SERIAL_BLOCK_TIFF_TILE_BYTE_COUNTS (of_nat i)
      (tile_count ifd * 8) (u64s_at (tile_byte_counts ifd)) = Inr b3"
    using push_block_with_ok [of b2 "tile_count ifd * 8" "u64s_at (tile_byte_counts ifd)"
        SERIAL_BLOCK_TIFF_TILE_BYTE_COUNTS i] room' ok lens
    by (simp add: b3_def b2_def b1_def t8 u64s_at_bytes take_u64s_bytes cc_def tile_byte_counts_vector_def ifd_buffers_ok_def)
  have s4: "push_block_with b3 SERIAL_BLOCK_TIFF_JPEG_TABLES (of_nat i)
      (jpeg_tables_length ifd) (bytes_at (jpeg_tables ifd)) =
      Inr (b3\<lparr>used_data := used_data b3 @ block_with SERIAL_BLOCK_TIFF_JPEG_TABLES i jj\<rparr>)"
    using push_block_with_ok [of b3 "jpeg_tables_length ifd" "bytes_at (jpeg_tables ifd)"
        SERIAL_BLOCK_TIFF_JPEG_TABLES i] room' ok lens
    by (simp add: b3_def b2_def b1_def jj_def jpeg_tables_blob_def ifd_buffers_ok_def)
  show ?thesis
    by (simp add: push_ifd_blocks_def s1 s2 s3 s4)
      (simp add: b3_def b2_def b1_def ifd_stream_def dd_def oo_def cc_def jj_def)
qed

lemma push_all_ifd_blocks_ok:
  assumes "list_all ifd_buffers_ok xs"
    and "length (used_data b) + sum_list (map ifd_stream_size xs) \<le> unat (capacity b)"
  shows "push_all_ifd_blocks b i xs = Inr (b\<lparr>used_data := used_data b @ ifds_stream i xs\<rparr>)"
  using assms
proof (induction xs arbitrary: b i)
  case Nil
  then show ?case by simp
next
  case (Cons x xs)
  have s: "push_ifd_blocks b i x = Inr (b\<lparr>used_data := used_data b @ ifd_stream i x\<rparr>)"
    using Cons.prems by (intro push_ifd_blocks_ok) simp_all
  have "push_all_ifd_blocks (b\<lparr>used_data := used_data b @ ifd_stream i x\<rparr>) (i + 1) xs =
      Inr (b\<lparr>used_data := used_data b @ ifd_stream i x\<rparr>
             \<lparr>used_data := used_data (b\<lparr>used_data := used_data b @ ifd_stream i x\<rparr>) @ ifds_stream (i + 1) xs\<rparr>)"
    using Cons.prems by (intro Cons.IH) (simp_all add: length_ifd_stream)
  then show ?case
    by (simp add: s)
qed

lemma length_ifds_stream:
  "list_all ifd_buffers_ok xs \<Longrightarrow> length (ifds_stream i xs) = sum_list (map ifd_stream_size xs)"
  by (induction xs arbitrary: i) (simp_all add: length_ifd_stream)

lemma ifd_payload_size_nat:
  "ifd_payload_size ifd = of_nat (ifd_stream_size ifd - 64)"
  by (simp add: ifd_payload_size_def ifd_stream_size_def)

lemma foldl_ifd_payload_size:
  "foldl (\<lambda>t ifd. t + ifd_payload_size ifd) a xs
     = a + of_nat (sum_list (map (\<lambda>ifd. ifd_stream_size ifd - 64) xs))"
  by (induction xs arbitrary: a) (simp_all add: ifd_payload_size_nat)

lemma sum_list_ifd_stream_size:
  "sum_list (map ifd_stream_size xs)
     = 64 * length xs + sum_list (map (\<lambda>ifd. ifd_stream_size ifd - 64) xs)"
  by (induction xs) (simp_all add: ifd_stream_size_def)

lemma serial_total_size_nat:
  assumes "unat (ifd_count tiff) = length (ifds tiff)"
  shows "serial_total_size L tiff (ifds tiff) = of_nat (payload_size L tiff)"
proof -
  have n: "ifd_count tiff = of_nat (length (ifds tiff))"
    using assms of_nat_unat [of "ifd_count tiff", where 'a = "64 word"] by simp
  show ?thesis
    by (simp add: serial_total_size_def payload_size_def foldl_ifd_payload_size
        sum_list_ifd_stream_size n algebra_simps)
qed

lemma length_concat_ifd_bytes:
  "layout_ok L \<Longrightarrow>
   length (concat (map (\<lambda>ifd. ifd_bytes L (serial_ifd_of ifd)) xs)) = length xs * ifd_size L"
  by (induction xs) (simp_all add: layout_ok_def)

lemma length_payload_stream:
  assumes "layout_ok L" and "list_all ifd_buffers_ok (ifds tiff)"
  shows "length (payload_stream L tiff) = payload_size L tiff"
  using assms
  by (simp add: payload_stream_def payload_size_def length_concat_ifd_bytes
      length_ifds_stream terminator_block_def) (simp add: layout_ok_def)

lemma serialize_uncompressed_ok:
  assumes L: "layout_ok L" and S: "serializable L tiff"
  shows "serialize_uncompressed L tiff =
     Inr \<lparr>http_part = http_headers (of_nat (payload_size L tiff)),
          used_data = payload_stream L tiff,
          capacity = of_nat (payload_size L tiff)\<rparr>"
proof -
  define P where "P = payload_size L tiff"
  define n where "n = length (ifds tiff)"
  define hb where "hb = header_bytes L (serial_header_of tiff)"
  define ib where "ib = concat (map (\<lambda>ifd. ifd_bytes L (serial_ifd_of ifd)) (ifds tiff))"
  have cnt: "unat (ifd_count tiff) = n" and ok: "list_all ifd_buffers_ok (ifds tiff)"
    and small: "P < 2 ^ 31"
    using S by (simp_all add: serializable_def n_def P_def)
  have cw: "ifd_count tiff = of_nat n"
    using cnt of_nat_unat [of "ifd_count tiff", where 'a = "64 word"] by simp
  have uP: "unat (of_nat P :: u64) = P"
    using small by (intro unat_of_nat_small) simp
  have lhb: "length hb = header_size L" and lib: "length ib = n * ifd_size L"
    using L by (simp_all add: hb_def ib_def n_def length_concat_ifd_bytes) (simp add: layout_ok_def)
  have Pd: "P = 48 + header_size L + n * ifd_size L + sum_list (map ifd_stream_size (ifds tiff))"
    by (simp add: P_def payload_size_def n_def)
  have uh: "unat (of_nat (header_size L) :: u64) = header_size L"
    using small Pd by (intro unat_of_nat_small) simp
  have ui: "unat (of_nat n * of_nat (ifd_size L) :: u64) = n * ifd_size L"
  proof -
    have "unat (of_nat (n * ifd_size L) :: u64) = n * ifd_size L"
      using small Pd by (intro unat_of_nat_small) simp
    then show ?thesis by simp
  qed
  define B where "B = \<lparr>http_part = http_headers (of_nat P), used_data = [], capacity = of_nat P :: u64\<rparr>"
  define h where "h = block_bytes \<lparr>block_type = SERIAL_BLOCK_TIFF_HEADER_AND_META, block_index = 0, block_length = 16\<rparr>"
  define b0 where "b0 = B\<lparr>used_data := h\<rparr>"
  define b1 where "b1 = B\<lparr>used_data := h @ hb\<rparr>"
  define ibk where "ibk = block_bytes \<lparr>block_type = SERIAL_BLOCK_TIFF_IFDS, block_index = 0,
                     block_length = of_nat (n * ifd_size L)\<rparr>"
  define b2 where "b2 = B\<lparr>used_data := h @ hb @ ibk @ ib\<rparr>"
  define b3 where "b3 = B\<lparr>used_data := h @ hb @ ibk @ ib @ ifds_stream 0 (ifds tiff)\<rparr>"
  define S where "S = sum_list (map ifd_stream_size (ifds tiff))"
  have r0: "16 \<le> P" and r1: "16 + header_size L \<le> P"
    and r2: "32 + header_size L + n * ifd_size L \<le> P"
    and r3: "32 + header_size L + n * ifd_size L + S \<le> P"
    and r4: "48 + header_size L + n * ifd_size L + S \<le> P"
    using Pd by (simp_all add: S_def)
  have s0: "push_block B SERIAL_BLOCK_TIFF_HEADER_AND_META 0 16 = Inr b0"
    using push_block_ok [of B SERIAL_BLOCK_TIFF_HEADER_AND_META 0 16] r0
    by (simp add: B_def b0_def h_def uP)
  have s1: "push_size b0 hb (of_nat (header_size L)) = Inr b1"
    using push_size_ok [of b0 "of_nat (header_size L)" hb] r1
    by (simp add: B_def b0_def b1_def h_def uP uh lhb)
  have s2: "push_block_with b1 SERIAL_BLOCK_TIFF_IFDS 0 (of_nat n * of_nat (ifd_size L)) ib = Inr b2"
    using push_block_with_ok [of b1 "of_nat n * of_nat (ifd_size L)" ib SERIAL_BLOCK_TIFF_IFDS 0] r2
    by (simp add: B_def b1_def b2_def h_def uP ui lhb lib block_with_def ibk_def)
  have s3: "push_all_ifd_blocks b2 0 (ifds tiff) = Inr b3"
    using push_all_ifd_blocks_ok [of "ifds tiff" b2 0] ok r3
    by (simp add: B_def b2_def b3_def h_def ibk_def uP lhb lib S_def [symmetric])
  have s4: "push_block b3 SERIAL_BLOCK_TERMINATOR 0 0 =
      Inr (B\<lparr>used_data := h @ hb @ ibk @ ib @ ifds_stream 0 (ifds tiff) @ terminator_block\<rparr>)"
    using push_block_ok [of b3 SERIAL_BLOCK_TERMINATOR 0 0] r4 ok
    by (simp add: B_def b3_def h_def ibk_def uP lhb lib length_ifds_stream terminator_block_def
        S_def [symmetric])
  have T: "serial_total_size L tiff (ifds tiff) = of_nat P"
    using cnt by (simp add: serial_total_size_nat n_def P_def)
  have tk: "take n (ifds tiff) = ifds tiff"
    by (simp add: n_def)
  show ?thesis
    unfolding serialize_uncompressed_def Let_def cnt tk T
    using s0 s1 s2 s3 s4
    by (simp add: n_def [symmetric] cw B_def [symmetric] hb_def [symmetric] ib_def [symmetric])
      (simp add: B_def payload_stream_def h_def hb_def ibk_def ib_def n_def P_def)
qed

subsection \<open>Reading the blocks back\<close>

lemma of_nat_length_pos:
  "n < 2 ^ 63 \<Longrightarrow> (0 < (of_nat n :: u64)) = (n \<noteq> 0)"
  using unat_of_nat_small [of n] by (auto simp: word_greater_zero_iff unat_eq_0 [symmetric] simp del: unat_eq_0)

lemma unat_ucast_u32_u64: "unat (ucast (w::u32) :: u64) = unat w"
proof -
  have "unat w < 2 ^ 32"
    using unsigned_less [of w, where 'a = nat] by simp
  then have "unat w < 2 ^ 64"
    by (rule less_trans) simp
  then show ?thesis
    by (simp add: unsigned_ucast_eq take_bit_nat_eq_self)
qed

lemma index_in_range:
  assumes "i < length (ifds t)" and "unat (ifd_count t) = length (ifds t)" and "length (ifds t) < 2 ^ 31"
  shows "\<not> ifd_count t \<le> ucast (of_nat i :: u32)" and "unat (of_nat i :: u32) = i"
proof -
  show u: "unat (of_nat i :: u32) = i"
    using assms by (simp add: unat_of_nat)
  have "unat (ucast (of_nat i :: u32) :: u64) = i"
    using u by (simp add: unat_ucast_u32_u64)
  then show "\<not> ifd_count t \<le> ucast (of_nat i :: u32)"
    using assms by (simp add: word_le_nat_alt)
qed

lemma block_content_cur:
  assumes "length ys < 2 ^ 63"
  shows "block_content (cur (pre @ block_bytes b @ ys) rest)
           (if ys = [] then p else int (length pre) + 16) (of_nat (length ys)) = Inr ys"
proof (cases "ys = []")
  case True
  then show ?thesis by (simp add: block_content_def)
next
  case False
  have u: "unat (of_nat (length ys) :: u64) = length ys"
    using assms by (intro unat_of_nat_small) simp
  have nz: "(of_nat (length ys) :: u64) \<noteq> 0"
    using False u by (metis length_0_conv unat_0)
  show ?thesis
    using False read_bytes_append [of "pre @ block_bytes b" ys rest]
    by (simp add: block_content_def nz u)
qed

lemma read_blocks_block:
  assumes "length ys < 2 ^ 63"
    and "i < length (ifds t)" and "unat (ifd_count t) = length (ifds t)" and "length (ifds t) < 2 ^ 31"
  shows "read_blocks t (cur pre (block_with ty i ys @ rest)) p =
     (case use_block t \<lparr>block_type = ty, block_index = of_nat i, block_length = of_nat (length ys)\<rparr>
             (cur (pre @ block_with ty i ys) rest) (if ys = [] then p else int (length pre) + 16) of
        Inl e \<Rightarrow> Some (Inl e)
      | Inr (t', reached_end) \<Rightarrow>
          if reached_end then Some (Inr t')
          else read_blocks t' (cur (pre @ block_with ty i ys) rest)
                 (if ys = [] then p else int (length pre) + 16))"
proof -
  let ?b = "\<lparr>block_type = ty, block_index = of_nat i, block_length = of_nat (length ys)\<rparr>"
  define c' where "c' = cur (pre @ block_with ty i ys) rest"
  define p' where "p' = (if ys = [] then p else int (length pre) + 16)"
  have s: "sint (of_nat (length ys) :: u64) = int (length ys)"
    using assms(1) by (rule sint_of_nat_small)
  have pb: "pop_block_from_buffer (cur pre (block_bytes ?b @ ys @ rest)) =
      Inr (?b, cur (pre @ block_bytes ?b) (ys @ rest))"
    by (rule pop_block_cur)
  have pc: "pop_from_buffer (cur (pre @ block_bytes ?b) (ys @ rest)) (int (length ys)) =
      Some (int (length pre) + 16, cur (pre @ block_bytes ?b @ ys) rest)"
    using pop_cur [of "pre @ block_bytes ?b" ys rest] by simp
  have "read_blocks t (cur pre (block_bytes ?b @ ys @ rest)) p =
     (case use_block t ?b c' p' of
        Inl e \<Rightarrow> Some (Inl e)
      | Inr (t', reached_end) \<Rightarrow>
          if reached_end then Some (Inr t') else read_blocks t' c' p')"
  proof (cases "ys = []")
    case True
    have c: "cur (pre @ block_bytes ?b) (ys @ rest) = c'" and p: "p = p'"
      and z: "\<not> 0 < (of_nat (length ys) :: u64)"
      using True by (simp_all add: c'_def p'_def block_with_def)
    show ?thesis
      by (subst read_blocks.simps)
        (simp add: pb index_in_range [OF assms(2,3,4)] z c p del: One_nat_def)
  next
    case False
    have pc': "pop_from_buffer (cur (pre @ block_bytes ?b) (ys @ rest)) (int (length ys)) = Some (p', c')"
      using pc False by (simp add: c'_def p'_def block_with_def)
    show ?thesis
      by (subst read_blocks.simps)
        (simp add: pb pc' s of_nat_length_pos [OF assms(1)] False index_in_range [OF assms(2,3,4)]
          del: One_nat_def)
  qed
  then show ?thesis
    unfolding c'_def p'_def block_with_def by simp
qed

lemma drop_u64s_bytes: "drop (8 * k) (u64s_bytes xs) = u64s_bytes (drop k xs)"
proof (induction xs arbitrary: k)
  case Nil
  then show ?case by (simp add: u64s_bytes_def)
next
  case (Cons x xs)
  show ?case
  proof (cases k)
    case 0
    then show ?thesis by simp
  next
    case (Suc j)
    then show ?thesis
      using Cons [of j] by (simp add: u64s_bytes_Cons)
  qed
qed

lemma u64s_of_bytes_u64s_bytes [simp]: "u64s_of_bytes (u64s_bytes xs) = xs"
proof -
  have "load_u64 (drop (8 * i) (u64s_bytes xs)) = xs ! i" if "i < length xs" for i
  proof -
    have "drop i xs = xs ! i # drop (Suc i) xs"
      using that by (simp add: Cons_nth_drop_Suc)
    then show ?thesis
      by (simp add: drop_u64s_bytes u64s_bytes_Cons)
  qed
  then have "map (\<lambda>i. load_u64 (drop (8 * i) (u64s_bytes xs))) [0..<length xs] = map (\<lambda>i. xs ! i) [0..<length xs]"
    by simp
  then show ?thesis
    by (simp add: u64s_of_bytes_def map_nth)
qed

lemma block_content_block_with:
  assumes "length ys < 2 ^ 63"
  shows "block_content (cur (pre @ block_with ty i ys) rest)
           (if ys = [] then p else int (length pre) + 16) (of_nat (length ys)) = Inr ys"
  using block_content_cur [OF assms] by (simp add: block_with_def)

lemma use_block_image_description:
  assumes "unat (of_nat i :: u32) = i" and "image_description (ifds t ! i) = None"
    and "block_content c p n = Inr bs"
  shows "use_block t \<lparr>block_type = SERIAL_BLOCK_TIFF_IMAGE_DESCRIPTION, block_index = of_nat i,
                      block_length = n\<rparr> c p =
     Inr (t\<lparr>ifds := (ifds t)[i := (ifds t ! i)
            \<lparr>image_description := Some (bs @ [0]), image_description_length := n\<rparr>]\<rparr>, False)"
  using assms by (simp add: use_block_def Let_def)

lemma use_block_tile_offsets:
  assumes "unat (of_nat i :: u32) = i" and "tile_offsets (ifds t ! i) = None"
    and "block_content c p n = Inr bs"
  shows "use_block t \<lparr>block_type = SERIAL_BLOCK_TIFF_TILE_OFFSETS, block_index = of_nat i,
                      block_length = n\<rparr> c p =
     Inr (t\<lparr>ifds := (ifds t)[i := (ifds t ! i)\<lparr>tile_offsets := Some (u64s_of_bytes bs)\<rparr>]\<rparr>, False)"
  using assms by (simp add: use_block_def Let_def)

lemma use_block_tile_byte_counts:
  assumes "unat (of_nat i :: u32) = i" and "tile_byte_counts (ifds t ! i) = None"
    and "block_content c p n = Inr bs"
  shows "use_block t \<lparr>block_type = SERIAL_BLOCK_TIFF_TILE_BYTE_COUNTS, block_index = of_nat i,
                      block_length = n\<rparr> c p =
     Inr (t\<lparr>ifds := (ifds t)[i := (ifds t ! i)\<lparr>tile_byte_counts := Some (u64s_of_bytes bs)\<rparr>]\<rparr>, False)"
  using assms by (simp add: use_block_def Let_def)

lemma use_block_jpeg_tables:
  assumes "unat (of_nat i :: u32) = i" and "jpeg_tables (ifds t ! i) = None"
    and "block_content c p n = Inr bs"
  shows "use_block t \<lparr>block_type = SERIAL_BLOCK_TIFF_JPEG_TABLES, block_index = of_nat i,
                      block_length = n\<rparr> c p = Inl UndefinedBehaviour"
  using assms by (simp add: use_block_def Let_def)

lemma read_blocks_data_block:
  assumes "length ys < 2 ^ 63"
    and "i < length (ifds t)" and "unat (ifd_count t) = length (ifds t)" and "length (ifds t) < 2 ^ 31"
    and "use_block t \<lparr>block_type = ty, block_index = of_nat i, block_length = of_nat (length ys)\<rparr>
           (cur (pre @ block_with ty i ys) rest) (if ys = [] then p else int (length pre) + 16)
         = Inr (t', False)"
  shows "\<exists>p'. read_blocks t (cur pre (block_with ty i ys @ rest)) p =
     read_blocks t' (cur (pre @ block_with ty i ys) rest) p'"
proof -
  have "read_blocks t (cur pre (block_with ty i ys @ rest)) p =
     read_blocks t' (cur (pre @ block_with ty i ys) rest) (if ys = [] then p else int (length pre) + 16)"
    by (subst read_blocks_block [OF assms(1,2,3,4)]) (simp only: assms(5) sum.case prod.case if_False)
  then show ?thesis ..
qed

lemma read_blocks_image_description:
  assumes "length ys < 2 ^ 63"
    and "i < length (ifds t)" and "unat (ifd_count t) = length (ifds t)" and "length (ifds t) < 2 ^ 31"
    and "image_description (ifds t ! i) = None"
  shows "\<exists>p'. read_blocks t (cur pre (block_with SERIAL_BLOCK_TIFF_IMAGE_DESCRIPTION i ys @ rest)) p =
     read_blocks (t\<lparr>ifds := (ifds t)[i := (ifds t ! i)
            \<lparr>image_description := Some (ys @ [0]), image_description_length := of_nat (length ys)\<rparr>]\<rparr>)
       (cur (pre @ block_with SERIAL_BLOCK_TIFF_IMAGE_DESCRIPTION i ys) rest) p'"
  using assms(1,2,3,4)
  by (rule read_blocks_data_block)
    (rule use_block_image_description [OF index_in_range(2) [OF assms(2,3,4)] assms(5)
        block_content_block_with [OF assms(1)]])

lemma read_blocks_tile_offsets:
  assumes "length (u64s_bytes xs) < 2 ^ 63"
    and "i < length (ifds t)" and "unat (ifd_count t) = length (ifds t)" and "length (ifds t) < 2 ^ 31"
    and "tile_offsets (ifds t ! i) = None"
  shows "\<exists>p'. read_blocks t (cur pre (block_with SERIAL_BLOCK_TIFF_TILE_OFFSETS i (u64s_bytes xs) @ rest)) p =
     read_blocks (t\<lparr>ifds := (ifds t)[i := (ifds t ! i)\<lparr>tile_offsets := Some xs\<rparr>]\<rparr>)
       (cur (pre @ block_with SERIAL_BLOCK_TIFF_TILE_OFFSETS i (u64s_bytes xs)) rest) p'"
  using assms(1,2,3,4)
  by (rule read_blocks_data_block)
    (use use_block_tile_offsets [OF index_in_range(2) [OF assms(2,3,4)] assms(5)
        block_content_block_with [OF assms(1)]] in \<open>simp only: u64s_of_bytes_u64s_bytes\<close>)

lemma read_blocks_tile_byte_counts:
  assumes "length (u64s_bytes xs) < 2 ^ 63"
    and "i < length (ifds t)" and "unat (ifd_count t) = length (ifds t)" and "length (ifds t) < 2 ^ 31"
    and "tile_byte_counts (ifds t ! i) = None"
  shows "\<exists>p'. read_blocks t (cur pre (block_with SERIAL_BLOCK_TIFF_TILE_BYTE_COUNTS i (u64s_bytes xs) @ rest)) p =
     read_blocks (t\<lparr>ifds := (ifds t)[i := (ifds t ! i)\<lparr>tile_byte_counts := Some xs\<rparr>]\<rparr>)
       (cur (pre @ block_with SERIAL_BLOCK_TIFF_TILE_BYTE_COUNTS i (u64s_bytes xs)) rest) p'"
  using assms(1,2,3,4)
  by (rule read_blocks_data_block)
    (use use_block_tile_byte_counts [OF index_in_range(2) [OF assms(2,3,4)] assms(5)
        block_content_block_with [OF assms(1)]] in \<open>simp only: u64s_of_bytes_u64s_bytes\<close>)

lemma read_blocks_jpeg_tables:
  assumes "length ys < 2 ^ 63"
    and "i < length (ifds t)" and "unat (ifd_count t) = length (ifds t)" and "length (ifds t) < 2 ^ 31"
    and "jpeg_tables (ifds t ! i) = None"
  shows "read_blocks t (cur pre (block_with SERIAL_BLOCK_TIFF_JPEG_TABLES i ys @ rest)) p =
     Some (Inl UndefinedBehaviour)"
  by (subst read_blocks_block [OF assms(1,2,3,4)])
    (simp only: use_block_jpeg_tables [OF index_in_range(2) [OF assms(2,3,4)] assms(5)
        block_content_block_with [OF assms(1)]] sum.case)

lemma read_blocks_ifd:
  assumes i: "i < length (ifds t)" and cnt: "unat (ifd_count t) = length (ifds t)"
    and n: "length (ifds t) < 2 ^ 31"
    and ok: "ifd_buffers_ok x" and small: "ifd_stream_size x < 2 ^ 63"
    and sk: "ifds t ! i = ifd_of_serial i (serial_ifd_of x)"
  shows "read_blocks t (cur pre (ifd_stream i x @ rest)) p = Some (Inl UndefinedBehaviour)"
proof -
  define dd where "dd = image_description_text x"
  define ov where "ov = tile_offsets_vector x"
  define cv where "cv = tile_byte_counts_vector x"
  define jj where "jj = jpeg_tables_blob x"
  define B1 where "B1 = block_with SERIAL_BLOCK_TIFF_IMAGE_DESCRIPTION i dd"
  define B2 where "B2 = block_with SERIAL_BLOCK_TIFF_TILE_OFFSETS i (u64s_bytes ov)"
  define B3 where "B3 = block_with SERIAL_BLOCK_TIFF_TILE_BYTE_COUNTS i (u64s_bytes cv)"
  define B4 where "B4 = block_with SERIAL_BLOCK_TIFF_JPEG_TABLES i jj"
  have S: "ifd_stream i x = B1 @ B2 @ B3 @ B4"
    by (simp add: ifd_stream_def B1_def B2_def B3_def B4_def dd_def ov_def cv_def jj_def)
  have lens: "length dd = unat (image_description_length x)"
      "length ov = unat (tile_count x)" "length cv = unat (tile_count x)"
      "length jj = unat (jpeg_tables_length x)"
    using ok by (simp_all add: dd_def ov_def cv_def jj_def ifd_buffers_ok_def
        image_description_text_def jpeg_tables_blob_def tile_offsets_vector_def
        tile_byte_counts_vector_def min_def)
  have b: "length dd < 2 ^ 63" "length (u64s_bytes ov) < 2 ^ 63"
      "length (u64s_bytes cv) < 2 ^ 63" "length jj < 2 ^ 63"
    using small by (simp_all add: lens ifd_stream_size_def)
  define sk0 where "sk0 = ifd_of_serial i (serial_ifd_of x)"
  define e1 where "e1 = sk0\<lparr>image_description := Some (dd @ [0]),
                           image_description_length := of_nat (length dd)\<rparr>"
  define e2 where "e2 = e1\<lparr>tile_offsets := Some ov\<rparr>"
  define e3 where "e3 = e2\<lparr>tile_byte_counts := Some cv\<rparr>"
  define t1 where "t1 = t\<lparr>ifds := (ifds t)[i := e1]\<rparr>"
  define t2 where "t2 = t\<lparr>ifds := (ifds t)[i := e2]\<rparr>"
  define t3 where "t3 = t\<lparr>ifds := (ifds t)[i := e3]\<rparr>"
  have none: "image_description sk0 = None" "tile_offsets e1 = None"
      "tile_byte_counts e2 = None" "jpeg_tables e3 = None"
    by (simp_all add: sk0_def e1_def e2_def e3_def ifd_of_serial_def)
  have tt: "i < length (ifds t1)" "unat (ifd_count t1) = length (ifds t1)" "length (ifds t1) < 2 ^ 31"
      "i < length (ifds t2)" "unat (ifd_count t2) = length (ifds t2)" "length (ifds t2) < 2 ^ 31"
      "i < length (ifds t3)" "unat (ifd_count t3) = length (ifds t3)" "length (ifds t3) < 2 ^ 31"
    using i cnt n by (simp_all add: t1_def t2_def t3_def)
  have at: "ifds t ! i = sk0" "ifds t1 ! i = e1" "ifds t2 ! i = e2" "ifds t3 ! i = e3"
    using i sk by (simp_all add: sk0_def t1_def t2_def t3_def)
  have nx: "t\<lparr>ifds := (ifds t)[i := (ifds t ! i)\<lparr>image_description := Some (dd @ [0]),
                 image_description_length := of_nat (length dd)\<rparr>]\<rparr> = t1"
      "t1\<lparr>ifds := (ifds t1)[i := (ifds t1 ! i)\<lparr>tile_offsets := Some ov\<rparr>]\<rparr> = t2"
      "t2\<lparr>ifds := (ifds t2)[i := (ifds t2 ! i)\<lparr>tile_byte_counts := Some cv\<rparr>]\<rparr> = t3"
    unfolding at by (simp_all add: t1_def t2_def t3_def e1_def e2_def e3_def)
  obtain p1 where s1: "read_blocks t (cur pre (B1 @ B2 @ B3 @ B4 @ rest)) p =
      read_blocks t1 (cur (pre @ B1) (B2 @ B3 @ B4 @ rest)) p1"
    using read_blocks_image_description [OF b(1) i cnt n, of pre "B2 @ B3 @ B4 @ rest" p] at(1) none(1)
    unfolding nx B1_def [symmetric] by auto
  obtain p2 where s2: "read_blocks t1 (cur (pre @ B1) (B2 @ B3 @ B4 @ rest)) p1 =
      read_blocks t2 (cur ((pre @ B1) @ B2) (B3 @ B4 @ rest)) p2"
    using read_blocks_tile_offsets [OF b(2) tt(1,2,3), of "pre @ B1" "B3 @ B4 @ rest" p1] at(2) none(2)
    unfolding nx B2_def [symmetric] by auto
  obtain p3 where s3: "read_blocks t2 (cur ((pre @ B1) @ B2) (B3 @ B4 @ rest)) p2 =
      read_blocks t3 (cur (((pre @ B1) @ B2) @ B3) (B4 @ rest)) p3"
    using read_blocks_tile_byte_counts [OF b(3) tt(4,5,6), of "(pre @ B1) @ B2" "B4 @ rest" p2] at(3) none(3)
    unfolding nx B3_def [symmetric] by auto
  have s4: "read_blocks t3 (cur (((pre @ B1) @ B2) @ B3) (B4 @ rest)) p3 = Some (Inl UndefinedBehaviour)"
    using read_blocks_jpeg_tables [OF b(4) tt(7,8,9), of "((pre @ B1) @ B2) @ B3" rest p3] at(4) none(4)
    unfolding B4_def [symmetric] by simp
  show ?thesis
    using s1 s2 s3 s4 by (simp add: S)
qed

lemma chunk_concat:
  assumes "\<forall>x\<in>set xs. length (f x) = k" and "i < length xs"
  shows "take k (drop (i * k) (concat (map f xs))) = f (xs ! i)"
  using assms
proof (induction xs arbitrary: i)
  case Nil
  then show ?case by simp
next
  case (Cons x xs)
  show ?case
  proof (cases i)
    case 0
    then show ?thesis using Cons.prems by simp
  next
    case (Suc j)
    then show ?thesis
      using Cons.prems Cons.IH [of j] by simp
  qed
qed

lemma deserialize_payload:
  assumes L: "layout_ok L" and S: "serializable L tiff" and ne: "ifds tiff \<noteq> []"
    and fb: "first_block Z buffer =
      Inr (\<lparr>block_type = SERIAL_BLOCK_TIFF_HEADER_AND_META, block_index = 0, block_length = 16\<rparr>,
           cur pre
             (header_bytes L (serial_header_of tiff)
              @ block_bytes \<lparr>block_type = SERIAL_BLOCK_TIFF_IFDS, block_index = 0,
                              block_length = of_nat (length (ifds tiff) * ifd_size L)\<rparr>
              @ concat (map (\<lambda>ifd. ifd_bytes L (serial_ifd_of ifd)) (ifds tiff))
              @ ifds_stream 0 (ifds tiff)
              @ terminator_block), p0)"
  shows "tiff_deserialize L Z buffer = Some (Inl UndefinedBehaviour)"
proof -
  define n where "n = length (ifds tiff)"
  define hb where "hb = header_bytes L (serial_header_of tiff)"
  define ibk where "ibk = \<lparr>block_type = SERIAL_BLOCK_TIFF_IFDS, block_index = 0,
                     block_length = (of_nat (n * ifd_size L) :: u64)\<rparr>"
  define ib where "ib = concat (map (\<lambda>ifd. ifd_bytes L (serial_ifd_of ifd)) (ifds tiff))"
  define tail where "tail = ifds_stream 0 (ifds tiff) @ terminator_block"
  define T0 where "T0 = tiff_of_serial_header (serial_header_of tiff)"
  define c2 where "c2 = cur (pre @ hb) (block_bytes ibk @ ib @ tail)"
  define c3 where "c3 = cur ((pre @ hb) @ block_bytes ibk) (ib @ tail)"
  define c4 where "c4 = cur (((pre @ hb) @ block_bytes ibk) @ ib) tail"
  define p3 where "p3 = int (length ((pre @ hb) @ block_bytes ibk))"
  define skel where "skel = map (\<lambda>i. ifd_of_serial i (serial_ifd_of (ifds tiff ! i))) [0..<n]"
  have cnt: "unat (ifd_count tiff) = n" and ok: "list_all ifd_buffers_ok (ifds tiff)"
    and small: "payload_size L tiff < 2 ^ 31"
    using S by (simp_all add: serializable_def n_def)
  have cw: "ifd_count tiff = of_nat n"
    using cnt of_nat_unat [of "ifd_count tiff", where 'a = "64 word"] by simp
  have c0: "ifd_count T0 = of_nat n" "unat (ifd_count T0) = n"
    using cnt by (simp_all add: T0_def tiff_of_serial_header_def serial_header_of_def cw)
  have lhb: "length hb = header_size L" and lib: "length ib = n * ifd_size L"
    using L by (simp_all add: hb_def ib_def n_def length_concat_ifd_bytes) (simp add: layout_ok_def)
  have hob: "header_of_bytes L hb = serial_header_of tiff"
    using L by (simp add: hb_def layout_ok_def)
  have bound: "n * ifd_size L < 2 ^ 31" "n < 2 ^ 31"
    and each: "list_all (\<lambda>x. ifd_stream_size x < 2 ^ 63) (ifds tiff)"
  proof -
    show "n * ifd_size L < 2 ^ 31"
      using small by (simp add: payload_size_def n_def)
    have "64 * n \<le> sum_list (map ifd_stream_size (ifds tiff))"
      by (simp add: sum_list_ifd_stream_size n_def)
    then show "n < 2 ^ 31"
      using small by (simp add: payload_size_def)
    have "\<forall>x\<in>set (ifds tiff). ifd_stream_size x \<le> sum_list (map ifd_stream_size (ifds tiff))"
      by (simp add: member_le_sum_list)
    then have "\<forall>x\<in>set (ifds tiff). ifd_stream_size x < 2 ^ 31"
      using small by (auto simp: payload_size_def)
    moreover have "(2::nat) ^ 31 < 2 ^ 63"
      by simp
    ultimately show "list_all (\<lambda>x. ifd_stream_size x < 2 ^ 63) (ifds tiff)"
      by (auto simp: list_all_iff)
  qed
  have fb': "first_block Z buffer =
      Inr (\<lparr>block_type = SERIAL_BLOCK_TIFF_HEADER_AND_META, block_index = 0, block_length = 16\<rparr>,
           cur pre (hb @ block_bytes ibk @ ib @ tail), p0)"
    using fb by (simp add: hb_def ibk_def ib_def tail_def n_def)
  have h1: "read_serial_header L Z buffer = Inr (serial_header_of tiff, c2)"
    using pop_cur [of pre hb "block_bytes ibk @ ib @ tail"]
      read_bytes_append [of pre hb "block_bytes ibk @ ib @ tail"]
    by (simp add: read_serial_header_def fb' lhb hob c2_def)
  have h2: "pop_block_from_buffer c2 = Inr (ibk, c3)"
    unfolding c2_def c3_def by (rule pop_block_cur)
  have si: "sint (of_nat n * of_nat (ifd_size L) :: u64) = int (length ib)"
  proof -
    have "n * ifd_size L < 2 ^ 63"
      using bound(1) by (rule less_trans) simp
    then have "sint (of_nat (n * ifd_size L) :: u64) = int (n * ifd_size L)"
      by (rule sint_of_nat_small)
    then show ?thesis by (simp add: lib)
  qed
  define w where "w = (of_nat (n * ifd_size L) :: u64)"
  have mw: "ifd_count T0 * of_nat (ifd_size L) = w"
    by (simp add: w_def c0(1))
  have bk: "block_type ibk = SERIAL_BLOCK_TIFF_IFDS" "block_length ibk = w"
    by (simp_all add: ibk_def w_def)
  have h3: "pop_from_buffer c3 (sint w) = Some (p3, c4)"
    using si pop_cur [of "(pre @ hb) @ block_bytes ibk" ib tail]
    by (simp add: w_def c3_def c4_def p3_def)
  have h4: "read_bytes (buf c3) p3 (n * ifd_size L) = Some ib"
    using read_bytes_append [of "(pre @ hb) @ block_bytes ibk" ib tail]
    by (simp add: c3_def p3_def lib)
  have h5: "map (\<lambda>i. ifd_of_serial i (ifd_of_bytes L (take (ifd_size L) (drop (i * ifd_size L) ib))))
      [0..<n] = skel"
  proof -
    have "ifd_of_bytes L (take (ifd_size L) (drop (i * ifd_size L) ib)) = serial_ifd_of (ifds tiff ! i)"
      if "i < n" for i
    proof -
      have "take (ifd_size L) (drop (i * ifd_size L) ib) = ifd_bytes L (serial_ifd_of (ifds tiff ! i))"
        unfolding ib_def using L that
        by (intro chunk_concat) (simp_all add: layout_ok_def n_def)
      then show ?thesis
        using L by (simp add: layout_ok_def)
    qed
    then show ?thesis
      by (simp add: skel_def)
  qed
  have d: "tiff_deserialize L Z buffer = read_blocks (T0\<lparr>ifds := skel\<rparr>) c4 p3"
    by (simp add: tiff_deserialize_def h1 T0_def [symmetric] h2 mw bk c0(2) h3 h4 h5)
  obtain x xs where xs: "ifds tiff = x # xs"
    using ne by (cases "ifds tiff") simp_all
  have pos: "0 < n"
    using ne by (simp add: n_def)
  have sk: "ifds (T0\<lparr>ifds := skel\<rparr>) ! 0 = ifd_of_serial 0 (serial_ifd_of x)"
    using pos by (simp add: skel_def xs upt_conv_Cons)
  have i0: "0 < length (ifds (T0\<lparr>ifds := skel\<rparr>))"
      "unat (ifd_count (T0\<lparr>ifds := skel\<rparr>)) = length (ifds (T0\<lparr>ifds := skel\<rparr>))"
      "length (ifds (T0\<lparr>ifds := skel\<rparr>)) < 2 ^ 31"
    using pos c0 bound by (simp_all add: skel_def)
  have okx: "ifd_buffers_ok x" and smx: "ifd_stream_size x < 2 ^ 63"
    using ok each by (simp_all add: xs)
  have "read_blocks (T0\<lparr>ifds := skel\<rparr>)
      (cur (((pre @ hb) @ block_bytes ibk) @ ib) (ifd_stream 0 x @ ifds_stream 1 xs @ terminator_block)) p3
      = Some (Inl UndefinedBehaviour)"
    using i0 okx smx sk by (rule read_blocks_ifd)
  then show ?thesis
    by (simp add: d c4_def tail_def xs)
qed

subsection \<open>Serializing and deserializing a descriptor\<close>

lemma first_block_plain:
  assumes "find_end_of_http_headers (hdr @ block_bytes b @ rest) = Inr (int (length hdr))"
    and "block_type b \<noteq> SERIAL_BLOCK_LZ4_COMPRESSED_DATA"
  shows "first_block Z (hdr @ block_bytes b @ rest) = Inr (b, cur (hdr @ block_bytes b) rest, 0)"
proof -
  have p: "pop_from_buffer (cur [] (hdr @ block_bytes b @ rest)) (int (length hdr))
      = Some (0, cur hdr (block_bytes b @ rest))"
    using pop_cur [of "[]" hdr "block_bytes b @ rest"] by simp
  show ?thesis
    using assms(2)
    by (simp add: first_block_def assms(1) cur_Nil [of "hdr @ block_bytes b @ rest", simplified] p
        pop_block_cur)
qed

lemma payload_stream_not_Nil: "payload_stream L tiff \<noteq> []"
  by (simp add: payload_stream_def)

lemma round_trip_plain:
  assumes L: "layout_ok L" and S: "serializable L tiff" and ne: "ifds tiff \<noteq> []"
  shows "tiff_deserialize L Z (http_headers T @ payload_stream L tiff) = Some (Inl UndefinedBehaviour)"
proof -
  let ?b = "\<lparr>block_type = SERIAL_BLOCK_TIFF_HEADER_AND_META, block_index = 0, block_length = 16\<rparr>"
  define tail where "tail = header_bytes L (serial_header_of tiff)
              @ block_bytes \<lparr>block_type = SERIAL_BLOCK_TIFF_IFDS, block_index = 0,
                              block_length = of_nat (length (ifds tiff) * ifd_size L)\<rparr>
              @ concat (map (\<lambda>ifd. ifd_bytes L (serial_ifd_of ifd)) (ifds tiff))
              @ ifds_stream 0 (ifds tiff)
              @ terminator_block"
  have P: "payload_stream L tiff = block_bytes ?b @ tail"
    by (simp add: payload_stream_def tail_def)
  have f: "find_end_of_http_headers (http_headers T @ block_bytes ?b @ tail)
      = Inr (int (length (http_headers T)))"
    by (rule find_end_of_http_headers_serialized) simp
  have "first_block Z (http_headers T @ block_bytes ?b @ tail)
      = Inr (?b, cur (http_headers T @ block_bytes ?b) tail, 0)"
    using f by (rule first_block_plain) simp
  then show ?thesis
    unfolding P tail_def by (rule deserialize_payload [OF L S ne])
qed

lemma round_trip_lz4:
  assumes L: "layout_ok L" and S: "serializable L tiff" and ne: "ifds tiff \<noteq> []"
    and len: "length cdata < 2 ^ 31"
    and dec: "lz4_decompress_safe Z cdata (int (length cdata)) (int (payload_size L tiff))
        = Some (payload_stream L tiff)"
  shows "tiff_deserialize L Z
           (http_headers T @ block_with SERIAL_BLOCK_LZ4_COMPRESSED_DATA (payload_size L tiff) cdata)
         = Some (Inl UndefinedBehaviour)"
proof -
  let ?b = "\<lparr>block_type = SERIAL_BLOCK_TIFF_HEADER_AND_META, block_index = 0, block_length = 16\<rparr>"
  define P where "P = payload_size L tiff"
  define bz where "bz = \<lparr>block_type = SERIAL_BLOCK_LZ4_COMPRESSED_DATA,
      block_index = (of_nat P :: u32), block_length = (of_nat (length cdata) :: u64)\<rparr>"
  define buffer where "buffer = http_headers T @ block_bytes bz @ cdata @ []"
  define tail where "tail = header_bytes L (serial_header_of tiff)
              @ block_bytes \<lparr>block_type = SERIAL_BLOCK_TIFF_IFDS, block_index = 0,
                              block_length = of_nat (length (ifds tiff) * ifd_size L)\<rparr>
              @ concat (map (\<lambda>ifd. ifd_bytes L (serial_ifd_of ifd)) (ifds tiff))
              @ ifds_stream 0 (ifds tiff)
              @ terminator_block"
  have ps: "payload_stream L tiff = block_bytes ?b @ tail"
    by (simp add: payload_stream_def tail_def)
  have small: "P < 2 ^ 31" and ok: "list_all ifd_buffers_ok (ifds tiff)"
    using S by (simp_all add: serializable_def P_def)
  have lp: "length (payload_stream L tiff) = P"
    using L ok by (simp add: length_payload_stream P_def)
  have Ppos: "0 < P"
    by (simp add: P_def payload_size_def)
  have sP: "sint (of_nat P :: u32) = int P"
    using small by (rule sint_of_nat_small32)
  have ul: "unat (of_nat (length cdata) :: u64) = length cdata"
    using len by (intro unat_of_nat_small) simp
  have f: "find_end_of_http_headers buffer = Inr (int (length (http_headers T)))"
    unfolding buffer_def by (rule find_end_of_http_headers_serialized) simp
  have b: "buffer = http_headers T @ block_bytes \<lparr>block_type = SERIAL_BLOCK_LZ4_COMPRESSED_DATA,
                      block_index = of_nat P, block_length = of_nat (length cdata)\<rparr> @ cdata @ []"
    by (simp add: buffer_def bz_def)
  have "first_block Z buffer = Inr (?b, cur ([] @ block_bytes ?b) tail, int (length (http_headers T)) + 16)"
    using first_block_lz4 [OF f b, of Z] ul len dec lp Ppos pop_block_cur [of "[]" ?b tail]
    by (simp add: sP P_def [symmetric] ps)
  then have "tiff_deserialize L Z buffer = Some (Inl UndefinedBehaviour)"
    unfolding tail_def by (rule deserialize_payload [OF L S ne])
  then show ?thesis
    by (simp add: buffer_def bz_def block_with_def P_def)
qed

lemma compress_payload_lz4:
  assumes c: "lz4_compress_default Z payload \<noteq> []"
    and fit: "16 + length (lz4_compress_default Z payload) \<le> P" and small: "P < 2 ^ 31"
  shows "compress_payload Z \<lparr>http_part = http_headers (of_nat P), used_data = payload,
                              capacity = of_nat P\<rparr>
     = Inr \<lparr>http_part = http_headers (of_nat P),
            used_data = block_with SERIAL_BLOCK_LZ4_COMPRESSED_DATA P (lz4_compress_default Z payload),
            capacity = of_nat P\<rparr>"
proof -
  define cdata where "cdata = lz4_compress_default Z payload"
  define B where "B = \<lparr>http_part = http_headers (of_nat P), used_data = [], capacity = (of_nat P :: u64)\<rparr>"
  have uP: "unat (of_nat P :: u64) = P"
    using small by (intro unat_of_nat_small) simp
  have ul: "unat (of_nat (length cdata) :: u64) = length cdata"
    using fit small by (intro unat_of_nat_small) (simp add: cdata_def)
  have ix: "(ucast (of_nat P :: u64) :: u32) = of_nat P"
    by (simp add: ucast_of_nat_unat uP del: of_nat_unat)
  have "push_block_with B SERIAL_BLOCK_LZ4_COMPRESSED_DATA (of_nat P) (of_nat (length cdata)) cdata
      = Inr (B\<lparr>used_data := used_data B @ block_with SERIAL_BLOCK_LZ4_COMPRESSED_DATA P
                 (take (unat (of_nat (length cdata) :: u64)) cdata)\<rparr>)"
    using fit by (intro push_block_with_ok) (simp_all add: B_def uP ul [unfolded cdata_def] cdata_def)
  then show ?thesis
    using c by (simp add: compress_payload_def Let_def ix cdata_def [symmetric] B_def ul)
qed

lemma load_store_bool32 [simp]: "load_bool32 (store_bool32 b @ rest) = b"
  by (simp add: load_bool32_def store_bool32_def)

lemma length_store_bool32 [simp]: "length (store_bool32 b) = 4"
  by (simp add: store_bool32_def)

lemma load_store_subimage_type [simp]: "load_subimage_type (store_subimage_type k @ rest) = k"
  by (cases k) (simp_all add: load_subimage_type_def store_subimage_type_def)

lemma load_store_subimage_type' [simp]: "load_subimage_type (store_subimage_type k) = k"
  using load_store_subimage_type [of k "[]"] by simp

lemma length_store_subimage_type [simp]: "length (store_subimage_type k) = 4"
  by (simp add: store_subimage_type_def)

lemma layout_ok_packed_layout: "layout_ok packed_layout"
proof -
  have "length (packed_header_bytes h) = 76" for h
    by (simp add: packed_header_bytes_def)
  moreover have "packed_header_of_bytes (packed_header_bytes h) = h" for h
    by (simp add: packed_header_of_bytes_def packed_header_bytes_def)
  moreover have "length (packed_ifd_bytes x) = 80" for x
    by (simp add: packed_ifd_bytes_def)
  moreover have "packed_ifd_of_bytes (packed_ifd_bytes x) = x" for x
    by (simp add: packed_ifd_of_bytes_def packed_ifd_bytes_def)
  ultimately show ?thesis
    by (simp add: layout_ok_def)
qed

lemma rle_encode_Nil: "rle_encode xs = [] \<longleftrightarrow> xs = []"
  by (cases xs) (simp_all split: list.splits)

lemma rle_encode_single: "rle_encode xs \<noteq> [c]"
  by (cases xs) (simp_all split: list.splits)

lemma rle_decode_rle_encode: "rle_decode (rle_encode xs) = xs"
proof (induction xs)
  case Nil
  then show ?case by simp
next
  case (Cons x xs)
  show ?case
  proof (cases "rle_encode xs")
    case Nil
    then show ?thesis
      using rle_encode_Nil [of xs] by simp
  next
    case outer: (Cons c ys)
    show ?thesis
    proof (cases ys)
      case Nil
      then show ?thesis
        using outer rle_encode_single [of xs c] by simp
    next
      case inner: (Cons y rest)
      have e: "rle_encode xs = c # y # rest"
        using outer inner by simp
      show ?thesis
      proof (cases "y = x \<and> c < 255")
        case True
        have "unat c < 255"
          using True by (simp add: word_less_nat_alt)
        then have "unat (c + 1) = Suc (unat c)"
          by (simp add: unat_word_ariths)
        then show ?thesis
          using Cons.IH True by (simp add: e)
      next
        case False
        then show ?thesis
          using Cons.IH by (auto simp: e)
      qed
    qed
  qed
qed

text \<open>
  C1. The code at the failing inputs, the descriptors with at least one IFD. Let
  \<^verbatim>\<open>ifd_count\<close> be the number of IFDs, let every IFD hold behind its pointers at least
  what its length fields say, and let the payload be shorter than \<open>2^31\<close> bytes. Let the
  two structs be laid out so that reading the bytes of a struct gives the struct back.
  Let LZ4 either fail to compress the payload (it returns 0), or return compressed data
  that, with its block header of 16 bytes, is not longer than the payload, and that
  \<^verbatim>\<open>LZ4_decompress_safe\<close> turns back into the payload. Then \<^verbatim>\<open>tiff_serialize\<close> succeeds,
  and \<^verbatim>\<open>tiff_deserialize\<close>, run on its bytes, reads the header, the IFD records and the
  first three blocks of IFD 0, and at the JPEG tables block of IFD 0 stores a byte past
  the end of the buffer that it allocated for the tables: it does not get to the end
  of the stream in a defined way.
\<close>

theorem round_trip_overruns_jpeg_tables:
  assumes "layout_ok L" and "serializable L tiff" and "ifds tiff \<noteq> []"
    and "lz4_compress_default Z (payload_stream L tiff) = []
         \<or> (16 + length (lz4_compress_default Z (payload_stream L tiff)) \<le> payload_size L tiff
            \<and> lz4_decompress_safe Z (lz4_compress_default Z (payload_stream L tiff))
                 (int (length (lz4_compress_default Z (payload_stream L tiff))))
                 (int (payload_size L tiff))
               = Some (payload_stream L tiff))"
  shows "\<exists>b. tiff_serialize L Z tiff = Inr b
           \<and> tiff_deserialize L Z (serialized_bytes b) = Some (Inl UndefinedBehaviour)"
proof -
  define P where "P = payload_size L tiff"
  define cdata where "cdata = lz4_compress_default Z (payload_stream L tiff)"
  have small: "P < 2 ^ 31"
    using assms(2) by (simp add: serializable_def P_def)
  have u: "serialize_uncompressed L tiff =
     Inr \<lparr>http_part = http_headers (of_nat P), used_data = payload_stream L tiff,
          capacity = of_nat P\<rparr>"
    using serialize_uncompressed_ok [OF assms(1,2)] by (simp add: P_def)
  show ?thesis
  proof (cases "cdata = []")
    case True
    have s: "tiff_serialize L Z tiff =
        Inr \<lparr>http_part = http_headers (of_nat P), used_data = payload_stream L tiff,
             capacity = of_nat P\<rparr>"
      using True by (simp add: tiff_serialize_def u compress_payload_def cdata_def)
    show ?thesis
      using s round_trip_plain [OF assms(1,2,3), of Z "of_nat P"]
      by (simp add: serialized_bytes_def)
  next
    case False
    have fit: "16 + length cdata \<le> P"
      and dec: "lz4_decompress_safe Z cdata (int (length cdata)) (int (payload_size L tiff))
          = Some (payload_stream L tiff)"
      using assms(4) False by (simp_all add: cdata_def P_def)
    have s: "tiff_serialize L Z tiff =
        Inr \<lparr>http_part = http_headers (of_nat P),
             used_data = block_with SERIAL_BLOCK_LZ4_COMPRESSED_DATA P cdata,
             capacity = of_nat P\<rparr>"
      using compress_payload_lz4 [of Z "payload_stream L tiff" P] False fit small
      by (simp add: tiff_serialize_def u cdata_def)
    have lc: "length cdata < 2 ^ 31"
      using fit small by simp
    show ?thesis
      using s round_trip_lz4 [OF assms(1,2,3) lc dec, of "of_nat P"]
      by (simp add: serialized_bytes_def P_def)
  qed
qed

lemma one_level_serializable: "serializable packed_layout one_level_image"
  by (simp add: serializable_def one_level_image_def tiff_zero_def tiff_ifd_zero_def
      ifd_buffers_ok_def payload_size_def ifd_stream_size_def bytes_at_def u64s_at_list_def
      bytes_of_def)

lemma one_level_payload_stream: "payload_stream packed_layout one_level_image = one_level_payload"
  using serialize_uncompressed_ok [OF layout_ok_packed_layout one_level_serializable]
  by (simp add: one_level_uncompressed)

lemma one_level_payload_size: "payload_size packed_layout one_level_image = 292"
  by (simp add: payload_size_def one_level_image_def tiff_zero_def tiff_ifd_zero_def
      ifd_stream_size_def)

theorem round_trip_overruns_jpeg_tables_witness:
  "(case tiff_serialize packed_layout run_length_codec one_level_image of
      Inr b \<Rightarrow>
        tiff_deserialize packed_layout run_length_codec (serialized_bytes b)
          = Some (Inl UndefinedBehaviour)
    | Inl e \<Rightarrow> False)"
proof -
  have ne: "ifds one_level_image \<noteq> []"
    by (simp add: one_level_image_def)
  have lc: "length one_level_compressed = 132"
    by (simp add: one_level_compressed_def)
  have lp: "length one_level_payload = 292"
    by (simp add: one_level_payload_def)
  have dc: "rle_decode one_level_compressed = one_level_payload"
    using rle_decode_rle_encode [of one_level_payload] by (simp add: one_level_rle)
  have z: "lz4_compress_default run_length_codec (payload_stream packed_layout one_level_image) = []
         \<or> (16 + length (lz4_compress_default run_length_codec (payload_stream packed_layout one_level_image))
               \<le> payload_size packed_layout one_level_image
            \<and> lz4_decompress_safe run_length_codec
                 (lz4_compress_default run_length_codec (payload_stream packed_layout one_level_image))
                 (int (length (lz4_compress_default run_length_codec
                    (payload_stream packed_layout one_level_image))))
                 (int (payload_size packed_layout one_level_image))
               = Some (payload_stream packed_layout one_level_image))"
    by (simp add: one_level_payload_stream one_level_payload_size run_length_codec_def
        dc one_level_rle lc lp)
  show ?thesis
    using round_trip_overruns_jpeg_tables
      [OF layout_ok_packed_layout one_level_serializable ne z]
    by auto
qed

end
